theory Spec2Isabelle
  imports Main "HOL-Library.Log_Nat"
begin

section \<open>Configuration assembly: \<open>generateDwnConfiguration\<close>\<close>

text \<open>
  The options object handed to \<open>DidIonMethod.generateJwkKeyPair\<close>, the entries of
  \<open>keySet.verificationMethodKeys\<close> (the generated key pair spread into an object that also
  carries \<open>relationships\<close>), the service entry and the returned \<open>DidIonCreateOptions\<close>.
  The key pair itself is produced by the external generator and is opaque here: it is
  the type parameter \<open>'k\<close>.
\<close>

record key_options =
  keyAlgorithm :: string
  keyId :: string

record 'k verification_method_key =
  keyPair :: 'k
  relationships :: "string list"

record service_endpoint =
  nodes :: "string list"
  signingKeys :: "string list"
  encryptionKeys :: "string list"

record did_service =
  service_id :: string
  service_type :: string
  serviceEndpoint :: service_endpoint

record 'k did_ion_key_set =
  verificationMethodKeys :: "'k verification_method_key list"

record 'k did_ion_create_options =
  keySet :: "'k did_ion_key_set"
  services :: "did_service list"

text \<open>
  \<open>DidIonMethod.generateJwkKeyPair\<close> is an external collaborator. It is a parameter of the
  model: a function from the options and the state of the outside world (the entropy it
  consumes) to a rejection \<open>Inl e\<close> or a key pair \<open>Inr k\<close>, and the next state. The two
  awaited calls run one after the other; a rejected \<open>await\<close> leaves the function at once
  with the rejection.
\<close>

type_synonym ('e, 'k, 's) key_generator = "key_options \<Rightarrow> 's \<Rightarrow> ('e + 'k) \<times> 's"

definition generateDwnConfiguration ::
  "('e, 'k, 's) key_generator \<Rightarrow> string list \<Rightarrow> 's \<Rightarrow> ('e + 'k did_ion_create_options) \<times> 's" where
  "generateDwnConfiguration generateJwkKeyPair dwnUrls s =
     (case generateJwkKeyPair \<lparr>keyAlgorithm = ''Ed25519'', keyId = ''#dwn-sig''\<rparr> s of
        (Inl e, s1) \<Rightarrow> (Inl e, s1)
      | (Inr signingKeyPair, s1) \<Rightarrow>
          (case generateJwkKeyPair \<lparr>keyAlgorithm = ''Ed25519'', keyId = ''#dwn-enc''\<rparr> s1 of
             (Inl e, s2) \<Rightarrow> (Inl e, s2)
           | (Inr encryptionKeyPair, s2) \<Rightarrow>
               (Inr \<lparr>keySet = \<lparr>verificationMethodKeys =
                        [\<lparr>keyPair = signingKeyPair, relationships = [''authentication'']\<rparr>,
                         \<lparr>keyPair = encryptionKeyPair, relationships = [''keyAgreement'']\<rparr>]\<rparr>,
                     services =
                        [\<lparr>service_id = ''#dwn'',
                          service_type = ''DecentralizedWebNode'',
                          serviceEndpoint = \<lparr>nodes = dwnUrls,
                                             signingKeys = [''#dwn-sig''],
                                             encryptionKeys = [''#dwn-enc'']\<rparr>\<rparr>]\<rparr>,
                s2)))"

text \<open>
  An observer of the generator: it runs the given generator and appends the options of
  every call to a log kept beside the state, so that the requests made by
  \<open>generateDwnConfiguration\<close> can be read off a run.
\<close>

definition recording ::
  "('e, 'k, 's) key_generator \<Rightarrow> ('e, 'k, key_options list \<times> 's) key_generator" where
  "recording generateJwkKeyPair opts =
     (\<lambda>(calls, s). case generateJwkKeyPair opts s of (r, s') \<Rightarrow> (r, (calls @ [opts], s')))"

text \<open>A concrete generator for examples: the key pair is the requested id, the state counts calls.\<close>

definition labelKeys :: "(string, string, nat) key_generator" where
  "labelKeys opts s = (Inr (keyId opts), Suc s)"

text \<open>A generator whose second call is rejected.\<close>

definition secondFails :: "(string, string, nat) key_generator" where
  "secondFails opts s = (if s = 0 then Inr (keyId opts) else Inl ''entropy exhausted'', Suc s)"


section \<open>Numbers: \<open>getRandomInt\<close>\<close>

text \<open>
  JavaScript numbers are IEEE 754 binary64 values, and \<open>Math.random() * (max - min)\<close> is a
  rounded product. A finite double is a rational number, so numbers are modelled as \<open>rat\<close>
  together with the rounding of an exact result to the nearest double, ties to even:
  \<open>binade x\<close> is the exponent \<open>e\<close> with \<open>2 ^ e \<le> \<bar>x\<bar> < 2 ^ (e + 1)\<close>, \<open>ulp x\<close> the spacing of
  the doubles around \<open>x\<close> (53 significant bits, and the fixed spacing \<open>2 ^ -1074\<close> of the
  subnormal range), and \<open>roundToDouble x\<close> the multiple of \<open>ulp x\<close> nearest to \<open>x\<close>.
  Overflow to infinity is left out: the products formed here stay below the array length.
\<close>

definition binade :: "rat \<Rightarrow> int" where
  "binade x = (case quotient_of \<bar>x\<bar> of (p, q) \<Rightarrow>
                 (let d = bitlen p - bitlen q in if 2 powi d \<le> \<bar>x\<bar> then d else d - 1))"

definition ulp :: "rat \<Rightarrow> rat" where
  "ulp x = 2 powi (max (binade x) (- 1022) - 52)"

definition roundTiesToEven :: "rat \<Rightarrow> int" where
  "roundTiesToEven q =
     (let f = \<lfloor>q\<rfloor>; d = q - of_int f
      in if d < 1 / 2 then f else if 1 / 2 < d then f + 1 else if even f then f else f + 1)"

definition roundToDouble :: "rat \<Rightarrow> rat" where
  "roundToDouble x = (if x = 0 then 0 else ulp x * of_int (roundTiesToEven (x / ulp x)))"

definition isDouble :: "rat \<Rightarrow> bool" where
  "isDouble x \<longleftrightarrow> roundToDouble x = x \<and> \<bar>x\<bar> < 2 ^ 1024"

text \<open>
  \<open>getRandomInt(min, max)\<close>. The first argument of the model is the value returned by the one
  call of \<open>Math.random()\<close>. \<open>Math.ceil\<close> and \<open>Math.floor\<close> are exact; the subtraction and the
  final addition are over integers, which doubles add and subtract exactly below \<open>2 ^ 53\<close>
  (the only call site passes \<open>0\<close> and an array length); the product is rounded.
\<close>

definition getRandomInt :: "rat \<Rightarrow> rat \<Rightarrow> rat \<Rightarrow> int" where
  "getRandomInt rnd mn mx =
     (let min' = \<lceil>mn\<rceil>; max' = \<lfloor>mx\<rfloor>
      in \<lfloor>roundToDouble (rnd * of_int (max' - min'))\<rfloor> + min')"


section \<open>Endpoint selection: \<open>getTechPreviewDwnEndpoints\<close>\<close>

subsection \<open>Values, responses and the outside world\<close>

text \<open>
  The parsed discovery document is an untyped JavaScript value. \<open>JUndefined\<close> never comes out
  of a JSON parser, but it is what a missing property, a missing array element and the
  destructuring of an empty array evaluate to. An object is the list of its own properties.
\<close>

datatype jsvalue =
    JUndefined
  | JNull
  | JBool bool
  | JNum rat
  | JStr string
  | JArr "jsvalue list"
  | JObj "(string \<times> jsvalue) list"

text \<open>The exceptions that JavaScript itself raises in this function.\<close>

datatype exception = TypeError | SyntaxError

text \<open>
  What the code reads of a \<open>Response\<close>: the status line, and the outcome of awaiting
  \<open>response.json()\<close>, which rejects when the body is not JSON. \<open>response.ok\<close> is true exactly
  for a status from 200 to 299. A call of \<open>fetch\<close> either rejects, with an error whose
  \<open>message\<close> is kept, or resolves to a response.
\<close>

record response =
  status :: nat
  statusText :: string
  json :: "exception + jsvalue"

definition ok :: "response \<Rightarrow> bool" where
  "ok r \<longleftrightarrow> 200 \<le> status r \<and> status r \<le> 299"

datatype fetched = Rejected string | Resolved response

text \<open>
  Everything outside the function that its result depends on: the outcome of fetching the
  well-known document, the outcome of the health probe issued in iteration \<open>k\<close> of the loop
  for the value \<open>dwnUrl\<close> (the request goes to \<open>`${dwnUrl}/health`\<close>), and the value returned
  by the \<open>k\<close>-th call of \<open>Math.random()\<close>.
\<close>

record world =
  fetchDocument :: fetched
  fetchHealth :: "nat \<Rightarrow> jsvalue \<Rightarrow> fetched"
  mathRandom :: "nat \<Rightarrow> rat"

text \<open>A number inside a template literal: its decimal digits.\<close>

fun showNat :: "nat \<Rightarrow> string" where
  "showNat n = (if n < 10 then [char_of (48 + n)] else showNat (n div 10) @ [char_of (48 + n mod 10)])"

declare showNat.simps [simp del]

text \<open>
  Property access \<open>v.name\<close> throws a \<open>TypeError\<close> on \<open>undefined\<close> and \<open>null\<close> and yields
  \<open>undefined\<close> for a property that is not there; the names looked up here are no built-in
  property of a string, number, boolean or array. The operator \<open>name in v\<close> throws a
  \<open>TypeError\<close> unless \<open>v\<close> is an object (an array is one, and has none of these names).
\<close>

definition getProperty :: "jsvalue \<Rightarrow> string \<Rightarrow> exception + jsvalue" where
  "getProperty v name =
     (case v of
        JUndefined \<Rightarrow> Inl TypeError
      | JNull \<Rightarrow> Inl TypeError
      | JObj props \<Rightarrow> (case map_of props name of Some x \<Rightarrow> Inr x | None \<Rightarrow> Inr JUndefined)
      | _ \<Rightarrow> Inr JUndefined)"

definition hasProperty :: "string \<Rightarrow> jsvalue \<Rightarrow> exception + bool" where
  "hasProperty name v =
     (case v of
        JObj props \<Rightarrow> Inr (name \<in> fst ` set props)
      | JArr _ \<Rightarrow> Inr False
      | _ \<Rightarrow> Inl TypeError)"

definition isArray :: "jsvalue \<Rightarrow> bool" where
  "isArray v = (case v of JArr _ \<Rightarrow> True | _ \<Rightarrow> False)"

definition typeof :: "jsvalue \<Rightarrow> string" where
  "typeof v =
     (case v of
        JUndefined \<Rightarrow> ''undefined''
      | JNull \<Rightarrow> ''object''
      | JBool _ \<Rightarrow> ''boolean''
      | JNum _ \<Rightarrow> ''number''
      | JStr _ \<Rightarrow> ''string''
      | JArr _ \<Rightarrow> ''object''
      | JObj _ \<Rightarrow> ''object'')"

text \<open>
  Modelled from the spec: \<open>didUtils.getServices\<close> of the package \<open>@web5/dids\<close> is not among the
  sources. The spec says that the service descriptors whose identifier equals the given
  fragment and whose type equals the given tag are located, in document order, and that
  a document without a match yields no candidate: the entries of the document's \<open>service\<close>
  array with that \<open>id\<close> and that \<open>type\<close>, and the empty list when there is no such array.
\<close>

definition getServices :: "jsvalue \<Rightarrow> string \<Rightarrow> string \<Rightarrow> jsvalue list" where
  "getServices didDocument ident type =
     (case getProperty didDocument ''service'' of
        Inr (JArr entries) \<Rightarrow>
          filter (\<lambda>service. getProperty service ''id'' = Inr (JStr ident) \<and>
                            getProperty service ''type'' = Inr (JStr type)) entries
      | _ \<Rightarrow> [])"

subsection \<open>The function, in the order of its source\<close>

text \<open>
  Lines 50 to 59: the fetch of the document inside \<open>try\<close>. A rejected fetch and a response
  that is not \<open>ok\<close> both end in the \<open>catch\<close> block, with the message that is logged (\<open>Inl\<close>);
  otherwise the response is kept.
\<close>

definition fetchDiscovery :: "world \<Rightarrow> string + response" where
  "fetchDiscovery w =
     (case fetchDocument w of
        Rejected message \<Rightarrow> Inl message
      | Resolved response \<Rightarrow>
          if \<not> ok response
          then Inl (''HTTP Error: '' @ showNat (status response) @ '' '' @ statusText response)
          else Inr response)"

text \<open>
  Lines 61 to 71, outside any \<open>try\<close>: the body is parsed, the first matching service is
  taken by destructuring (\<open>undefined\<close> when there is none), and the four conjuncts of the
  \<open>if\<close> are evaluated from left to right, stopping at the first that is false. The result
  is an exception that leaves the function (\<open>Inl\<close>), no usable list (\<open>Inr None\<close>, the \<open>if\<close> is
  skipped) or the array \<open>serviceEndpoint.nodes\<close>.
\<close>

definition extractNodes :: "response \<Rightarrow> exception + jsvalue list option" where
  "extractNodes response =
     (case json response of
        Inl e \<Rightarrow> Inl e
      | Inr didDocument \<Rightarrow>
          (let dwnService = (case getServices didDocument ''#dwn'' ''DecentralizedWebNode'' of
                               [] \<Rightarrow> JUndefined | service # _ \<Rightarrow> service)
           in case hasProperty ''serviceEndpoint'' dwnService of
                Inl e \<Rightarrow> Inl e
              | Inr False \<Rightarrow> Inr None
              | Inr True \<Rightarrow>
                  (case getProperty dwnService ''serviceEndpoint'' of
                     Inl e \<Rightarrow> Inl e
                   | Inr endpoint \<Rightarrow>
                       if isArray endpoint then Inr None
                       else if typeof endpoint = ''string'' then Inr None
                       else (case getProperty endpoint ''nodes'' of
                               Inl e \<Rightarrow> Inl e
                             | Inr (JArr dwnUrls) \<Rightarrow> Inr (Some dwnUrls)
                             | Inr _ \<Rightarrow> Inr None))))"

text \<open>
  Reading an array at an index that is not one of its positions gives \<open>undefined\<close>, here
  \<open>None\<close>. A \<open>Set\<close> keeps its members in insertion order and ignores a member it already has.
\<close>

definition arrayGet :: "'a list \<Rightarrow> int \<Rightarrow> 'a option" where
  "arrayGet xs i = (if 0 \<le> i \<and> i < int (length xs) then Some (xs ! nat i) else None)"

definition setAdd :: "'a \<Rightarrow> 'a list \<Rightarrow> 'a list" where
  "setAdd x xs = (if x \<in> set xs then xs else xs @ [x])"

text \<open>
  Lines 73 to 87. The state of the loop is the counter \<open>attempts\<close> and the set
  \<open>techPreviewEndpoints\<close>; \<open>probed\<close> records, for the proofs, every health probe issued and its
  outcome. One iteration draws an index, reads the array there, probes, and adds the
  value when the probe resolved to an \<open>ok\<close> response; a rejected probe is caught and ignored.
  The loop runs while \<open>attempts < dwnUrls.length\<close> and the set is smaller than
  \<open>Math.min(dwnUrls.length, 2)\<close>.
\<close>

record 'a selection =
  attempts :: nat
  techPreviewEndpoints :: "'a option list"
  probed :: "('a option \<times> fetched) list"

definition probeStep ::
  "(nat \<Rightarrow> rat) \<Rightarrow> (nat \<Rightarrow> 'a option \<Rightarrow> fetched) \<Rightarrow> 'a list \<Rightarrow> 'a selection \<Rightarrow> 'a selection" where
  "probeStep random health dwnUrls st =
     (let nodeIdx = getRandomInt (random (attempts st)) 0 (of_nat (length dwnUrls));
          dwnUrl = arrayGet dwnUrls nodeIdx;
          healthCheck = health (attempts st) dwnUrl
      in \<lparr>attempts = attempts st + 1,
          techPreviewEndpoints =
            (case healthCheck of
               Resolved r \<Rightarrow>
                 if ok r then setAdd dwnUrl (techPreviewEndpoints st) else techPreviewEndpoints st
             | Rejected _ \<Rightarrow> techPreviewEndpoints st),
          probed = probed st @ [(dwnUrl, healthCheck)]\<rparr>)"

function probeLoop ::
  "(nat \<Rightarrow> rat) \<Rightarrow> (nat \<Rightarrow> 'a option \<Rightarrow> fetched) \<Rightarrow> 'a list \<Rightarrow> 'a selection \<Rightarrow> 'a selection" where
  "probeLoop random health dwnUrls st =
     (if attempts st < length dwnUrls \<and>
         length (techPreviewEndpoints st) < min (length dwnUrls) 2
      then probeLoop random health dwnUrls (probeStep random health dwnUrls st)
      else st)"
  by pat_completeness auto
termination
  by (relation "measure (\<lambda>(random, health, dwnUrls, st). length dwnUrls - attempts st)")
     (auto simp: probeStep_def Let_def)

declare probeLoop.simps [simp del]

text \<open>
  A \<open>Set\<close> compares strings, numbers, booleans and \<open>null\<close> by value and objects and arrays by
  identity. The parser creates a fresh object for every array or object it reads, so
  such an entry of \<open>nodes\<close> is identified by its position, and any other entry by its value.
\<close>

type_synonym member = "nat option \<times> jsvalue"

definition memberAt :: "nat \<Rightarrow> jsvalue \<Rightarrow> member" where
  "memberAt i v = (case v of JArr _ \<Rightarrow> (Some i, v) | JObj _ \<Rightarrow> (Some i, v) | _ \<Rightarrow> (None, v))"

definition members :: "jsvalue list \<Rightarrow> member list" where
  "members dwnUrls = map (\<lambda>(i, v). memberAt i v) (enumerate 0 dwnUrls)"

definition valueOf :: "member option \<Rightarrow> jsvalue" where
  "valueOf m = (case m of None \<Rightarrow> JUndefined | Some (_, v) \<Rightarrow> v)"

text \<open>
  A run of the function: what it logged with \<open>console.warn\<close>, the health probes it issued,
  and its result, an exception that reaches the caller (\<open>Inl\<close>) or the returned array.
\<close>

record endpoints_run =
  warnings :: "string list list"
  probes :: "(jsvalue \<times> fetched) list"
  result :: "exception + jsvalue list"

definition getTechPreviewDwnEndpoints :: "world \<Rightarrow> endpoints_run" where
  "getTechPreviewDwnEndpoints w =
     (case fetchDiscovery w of
        Inl message \<Rightarrow>
          \<lparr>warnings = [[''failed to get tech preview dwn endpoints:'', message]],
           probes = [], result = Inr []\<rparr>
      | Inr response \<Rightarrow>
          (case extractNodes response of
             Inl e \<Rightarrow> \<lparr>warnings = [], probes = [], result = Inl e\<rparr>
           | Inr None \<Rightarrow> \<lparr>warnings = [], probes = [], result = Inr []\<rparr>
           | Inr (Some dwnUrls) \<Rightarrow>
               (let st = probeLoop (mathRandom w) (\<lambda>k m. fetchHealth w k (valueOf m)) (members dwnUrls)
                           \<lparr>attempts = 0, techPreviewEndpoints = [], probed = []\<rparr>
                in \<lparr>warnings = [],
                    probes = map (\<lambda>(m, h). (valueOf m, h)) (probed st),
                    result = Inr (map valueOf (techPreviewEndpoints st))\<rparr>)))"

text \<open>
  \<open>Math.random()\<close> returns a double that is at least 0 and less than 1. A probe succeeded
  when it resolved to an \<open>ok\<close> response.
\<close>

definition validRandom :: "(nat \<Rightarrow> rat) \<Rightarrow> bool" where
  "validRandom random \<longleftrightarrow> (\<forall>k. isDouble (random k) \<and> 0 \<le> random k \<and> random k < 1)"

definition succeeded :: "fetched \<Rightarrow> bool" where
  "succeeded h = (case h of Resolved r \<Rightarrow> ok r | Rejected _ \<Rightarrow> False)"

abbreviation drawn :: "(nat \<Rightarrow> rat) \<Rightarrow> 'a list \<Rightarrow> nat \<Rightarrow> 'a option" where
  "drawn random dwnUrls k \<equiv>
     arrayGet dwnUrls (getRandomInt (random k) 0 (of_nat (length dwnUrls)))"

abbreviation start :: "'a selection" where
  "start \<equiv> \<lparr>attempts = 0, techPreviewEndpoints = [], probed = []\<rparr>"

subsection \<open>Example worlds\<close>

definition healthy :: fetched where
  "healthy = Resolved \<lparr>status = 200, statusText = ''OK'', json = Inl SyntaxError\<rparr>"

definition served :: "jsvalue \<Rightarrow> fetched" where
  "served didDocument = Resolved \<lparr>status = 200, statusText = ''OK'', json = Inr didDocument\<rparr>"

definition didDocumentWith :: "jsvalue \<Rightarrow> jsvalue" where
  "didDocumentWith endpoint =
     JObj [(''id'', JStr ''did:web:dwn.tbddev.org''),
           (''service'', JArr [JObj [(''id'', JStr ''#dwn''),
                                     (''type'', JStr ''DecentralizedWebNode''),
                                     (''serviceEndpoint'', endpoint)]])]"

definition fiveNodes :: "string list" where
  "fiveNodes = [''https://dwn1.example'', ''https://dwn2.example'', ''https://dwn3.example'',
                ''https://dwn4.example'', ''https://dwn5.example'']"

definition stuckWorld :: world where
  "stuckWorld = \<lparr>fetchDocument = served (didDocumentWith (JObj [(''nodes'', JArr (map JStr fiveNodes))])),
                  fetchHealth = (\<lambda>k dwnUrl. healthy),
                  mathRandom = (\<lambda>k. 0)\<rparr>"

definition spreadWorld :: world where
  "spreadWorld = \<lparr>fetchDocument = served (didDocumentWith (JObj [(''nodes'', JArr (map JStr fiveNodes))])),
                   fetchHealth = (\<lambda>k dwnUrl. healthy),
                   mathRandom = (\<lambda>k. if k = 0 then 0 else 1 / 2)\<rparr>"

definition unreachable :: "nat \<Rightarrow> 'a \<Rightarrow> fetched" where
  "unreachable k dwnUrl = Rejected ''fetch failed''"

definition outageWorld :: world where
  "outageWorld = \<lparr>fetchDocument = Resolved \<lparr>status = 500, statusText = ''Internal Server Error'',
                                                 json = Inl SyntaxError\<rparr>,
                   fetchHealth = (\<lambda>k dwnUrl. healthy),
                   mathRandom = (\<lambda>k. 0)\<rparr>"

definition garbledWorld :: world where
  "garbledWorld = \<lparr>fetchDocument = Resolved \<lparr>status = 200, statusText = ''OK'', json = Inl SyntaxError\<rparr>,
                    fetchHealth = (\<lambda>k dwnUrl. healthy),
                    mathRandom = (\<lambda>k. 0)\<rparr>"

definition noServiceWorld :: world where
  "noServiceWorld = \<lparr>fetchDocument = served (JObj [(''id'', JStr ''did:web:dwn.tbddev.org''),
                                                     (''service'', JArr [])]),
                      fetchHealth = (\<lambda>k dwnUrl. healthy),
                      mathRandom = (\<lambda>k. 0)\<rparr>"

definition nullEndpointWorld :: world where
  "nullEndpointWorld = \<lparr>fetchDocument = served (didDocumentWith JNull),
                         fetchHealth = (\<lambda>k dwnUrl. healthy),
                         mathRandom = (\<lambda>k. 0)\<rparr>"

definition stringEndpointWorld :: world where
  "stringEndpointWorld = \<lparr>fetchDocument = served (didDocumentWith (JStr ''https://dwn1.example'')),
                           fetchHealth = (\<lambda>k dwnUrl. healthy),
                           mathRandom = (\<lambda>k. 0)\<rparr>"


section \<open>Properties of \<open>generateDwnConfiguration\<close>\<close>

lemma recording_result:
  "fst (generateDwnConfiguration (recording g) urls (calls, s)) = fst (generateDwnConfiguration g urls s)"
  by (simp add: generateDwnConfiguration_def recording_def split: prod.splits sum.splits)

text \<open>
  Claim C1. For every list of node URLs, the empty one included, when both key generations
  succeed the function returns a configuration with exactly one service, of type
  \<open>DecentralizedWebNode\<close>, whose \<open>nodes\<close> are the input list itself (same length, order and
  duplicates); exactly two verification-method keys, the generated signing and encryption
  key pairs in this order; \<open>signingKeys\<close> is the one-element list of the id the signing key
  was requested under, \<open>#dwn-sig\<close>, and \<open>encryptionKeys\<close> the one-element list of the id the
  encryption key was requested under, \<open>#dwn-enc\<close>.
\<close>

theorem generateDwnConfiguration_shape:
  assumes "g \<lparr>keyAlgorithm = ''Ed25519'', keyId = ''#dwn-sig''\<rparr> s = (Inr sk, s1)"
    and "g \<lparr>keyAlgorithm = ''Ed25519'', keyId = ''#dwn-enc''\<rparr> s1 = (Inr ek, s2)"
  shows "\<exists>cfg svc k1 k2.
           generateDwnConfiguration g urls s = (Inr cfg, s2) \<and>
           services cfg = [svc] \<and>
           service_type svc = ''DecentralizedWebNode'' \<and>
           nodes (serviceEndpoint svc) = urls \<and>
           verificationMethodKeys (keySet cfg) = [k1, k2] \<and>
           keyPair k1 = sk \<and> keyPair k2 = ek \<and>
           signingKeys (serviceEndpoint svc) = [''#dwn-sig''] \<and>
           encryptionKeys (serviceEndpoint svc) = [''#dwn-enc'']"
  using assms by (simp add: generateDwnConfiguration_def)

theorem generateDwnConfiguration_shape_witness:
  "labelKeys \<lparr>keyAlgorithm = ''Ed25519'', keyId = ''#dwn-sig''\<rparr> 0 = (Inr ''#dwn-sig'', 1) \<and>
   labelKeys \<lparr>keyAlgorithm = ''Ed25519'', keyId = ''#dwn-enc''\<rparr> 1 = (Inr ''#dwn-enc'', 2) \<and>
   (\<exists>cfg svc k1 k2.
      generateDwnConfiguration labelKeys [''https://a.example'', ''https://a.example''] 0 = (Inr cfg, 2) \<and>
      services cfg = [svc] \<and>
      service_type svc = ''DecentralizedWebNode'' \<and>
      nodes (serviceEndpoint svc) = [''https://a.example'', ''https://a.example''] \<and>
      verificationMethodKeys (keySet cfg) = [k1, k2] \<and>
      keyPair k1 = ''#dwn-sig'' \<and> keyPair k2 = ''#dwn-enc'' \<and>
      signingKeys (serviceEndpoint svc) = [''#dwn-sig''] \<and>
      encryptionKeys (serviceEndpoint svc) = [''#dwn-enc''])"
proof -
  have a: "labelKeys \<lparr>keyAlgorithm = ''Ed25519'', keyId = ''#dwn-sig''\<rparr> 0 = (Inr ''#dwn-sig'', 1)"
    by (simp add: labelKeys_def)
  have b: "labelKeys \<lparr>keyAlgorithm = ''Ed25519'', keyId = ''#dwn-enc''\<rparr> 1 = (Inr ''#dwn-enc'', 2)"
    by (simp add: labelKeys_def)
  show ?thesis
    by (intro conjI a b generateDwnConfiguration_shape [OF a b])
qed

text \<open>
  Claim C4. The operation is all-or-nothing. When the first key generation is rejected,
  or the second is rejected after the first succeeded, the result is that very rejection,
  unchanged, and so it is not a configuration; a configuration is returned only when
  both generations succeeded.
\<close>

theorem generateDwnConfiguration_all_or_nothing:
  "(g \<lparr>keyAlgorithm = ''Ed25519'', keyId = ''#dwn-sig''\<rparr> s = (Inl e, s1) \<longrightarrow>
      generateDwnConfiguration g urls s = (Inl e, s1)) \<and>
   (g \<lparr>keyAlgorithm = ''Ed25519'', keyId = ''#dwn-sig''\<rparr> s = (Inr sk, s1) \<and>
    g \<lparr>keyAlgorithm = ''Ed25519'', keyId = ''#dwn-enc''\<rparr> s1 = (Inl e, s2) \<longrightarrow>
      generateDwnConfiguration g urls s = (Inl e, s2)) \<and>
   (generateDwnConfiguration g urls s = (Inr cfg, s') \<longrightarrow>
      (\<exists>k1 k2 t. g \<lparr>keyAlgorithm = ''Ed25519'', keyId = ''#dwn-sig''\<rparr> s = (Inr k1, t) \<and>
                 g \<lparr>keyAlgorithm = ''Ed25519'', keyId = ''#dwn-enc''\<rparr> t = (Inr k2, s')))"
  by (simp add: generateDwnConfiguration_def split: prod.splits sum.splits)

theorem generateDwnConfiguration_all_or_nothing_witness:
  "secondFails \<lparr>keyAlgorithm = ''Ed25519'', keyId = ''#dwn-sig''\<rparr> 0 = (Inr ''#dwn-sig'', 1) \<and>
   secondFails \<lparr>keyAlgorithm = ''Ed25519'', keyId = ''#dwn-enc''\<rparr> 1 = (Inl ''entropy exhausted'', 2) \<and>
   generateDwnConfiguration secondFails [''https://a.example''] 0 = (Inl ''entropy exhausted'', 2)"
proof -
  have a: "secondFails \<lparr>keyAlgorithm = ''Ed25519'', keyId = ''#dwn-sig''\<rparr> 0 = (Inr ''#dwn-sig'', 1)"
    by (simp add: secondFails_def)
  have b: "secondFails \<lparr>keyAlgorithm = ''Ed25519'', keyId = ''#dwn-enc''\<rparr> 1 = (Inl ''entropy exhausted'', 2)"
    by (simp add: secondFails_def)
  have "generateDwnConfiguration secondFails [''https://a.example''] 0 = (Inl ''entropy exhausted'', 2)"
    by (rule generateDwnConfiguration_all_or_nothing
          [THEN conjunct2, THEN conjunct1, THEN mp, OF conjI [OF a b]])
  with a b show ?thesis by (intro conjI)
qed

text \<open>
  Claim C10. Whatever the input list and the generator, a run that returns a configuration
  has made exactly two requests to the generator, first for \<open>Ed25519\<close> under the id
  \<open>#dwn-sig\<close> and then for \<open>Ed25519\<close> under the id \<open>#dwn-enc\<close>. The key set is the key pair
  generated by the first request, carrying the relationship \<open>authentication\<close>, followed by
  the key pair generated by the second request, carrying \<open>keyAgreement\<close>. The service names
  \<open>#dwn-sig\<close> as its signing key and \<open>#dwn-enc\<close> as its encryption key. None of this depends
  on the input: from the same state any other list \<open>urls'\<close> gives the same key set and the
  same two key ids.
\<close>

theorem generateDwnConfiguration_fixed_identifiers:
  assumes "generateDwnConfiguration g urls s = (Inr cfg, s')"
  shows "\<exists>sk ek s1.
           g \<lparr>keyAlgorithm = ''Ed25519'', keyId = ''#dwn-sig''\<rparr> s = (Inr sk, s1) \<and>
           g \<lparr>keyAlgorithm = ''Ed25519'', keyId = ''#dwn-enc''\<rparr> s1 = (Inr ek, s') \<and>
           generateDwnConfiguration (recording g) urls ([], s) =
             (Inr cfg, ([\<lparr>keyAlgorithm = ''Ed25519'', keyId = ''#dwn-sig''\<rparr>,
                         \<lparr>keyAlgorithm = ''Ed25519'', keyId = ''#dwn-enc''\<rparr>], s')) \<and>
           verificationMethodKeys (keySet cfg) =
             [\<lparr>keyPair = sk, relationships = [''authentication'']\<rparr>,
              \<lparr>keyPair = ek, relationships = [''keyAgreement'']\<rparr>] \<and>
           map (signingKeys \<circ> serviceEndpoint) (services cfg) = [[''#dwn-sig'']] \<and>
           map (encryptionKeys \<circ> serviceEndpoint) (services cfg) = [[''#dwn-enc'']] \<and>
           (\<exists>cfg'. generateDwnConfiguration g urls' s = (Inr cfg', s') \<and>
                   keySet cfg' = keySet cfg \<and>
                   map (signingKeys \<circ> serviceEndpoint) (services cfg') = [[''#dwn-sig'']] \<and>
                   map (encryptionKeys \<circ> serviceEndpoint) (services cfg') = [[''#dwn-enc'']])"
proof -
  obtain k1 t where 1: "g \<lparr>keyAlgorithm = ''Ed25519'', keyId = ''#dwn-sig''\<rparr> s = (Inr k1, t)"
    using assms by (cases "g \<lparr>keyAlgorithm = ''Ed25519'', keyId = ''#dwn-sig''\<rparr> s")
      (simp add: generateDwnConfiguration_def split: sum.splits prod.splits)
  obtain k2 where 2: "g \<lparr>keyAlgorithm = ''Ed25519'', keyId = ''#dwn-enc''\<rparr> t = (Inr k2, s')"
    using assms 1 by (cases "g \<lparr>keyAlgorithm = ''Ed25519'', keyId = ''#dwn-enc''\<rparr> t")
      (simp add: generateDwnConfiguration_def split: sum.splits prod.splits)
  from assms 1 2 have cfg: "cfg = \<lparr>keySet = \<lparr>verificationMethodKeys =
                        [\<lparr>keyPair = k1, relationships = [''authentication'']\<rparr>,
                         \<lparr>keyPair = k2, relationships = [''keyAgreement'']\<rparr>]\<rparr>,
                     services =
                        [\<lparr>service_id = ''#dwn'',
                          service_type = ''DecentralizedWebNode'',
                          serviceEndpoint = \<lparr>nodes = urls,
                                             signingKeys = [''#dwn-sig''],
                                             encryptionKeys = [''#dwn-enc'']\<rparr>\<rparr>]\<rparr>"
    by (simp add: generateDwnConfiguration_def)
  have r: "generateDwnConfiguration (recording g) urls ([], s) =
             (Inr cfg, ([\<lparr>keyAlgorithm = ''Ed25519'', keyId = ''#dwn-sig''\<rparr>,
                         \<lparr>keyAlgorithm = ''Ed25519'', keyId = ''#dwn-enc''\<rparr>], s'))"
    using 1 2 cfg by (simp add: generateDwnConfiguration_def recording_def)
  have k: "verificationMethodKeys (keySet cfg) =
             [\<lparr>keyPair = k1, relationships = [''authentication'']\<rparr>,
              \<lparr>keyPair = k2, relationships = [''keyAgreement'']\<rparr>]"
    by (simp add: cfg)
  have sg: "map (signingKeys \<circ> serviceEndpoint) (services cfg) = [[''#dwn-sig'']]"
    by (simp add: cfg)
  have en: "map (encryptionKeys \<circ> serviceEndpoint) (services cfg) = [[''#dwn-enc'']]"
    by (simp add: cfg)
  have other: "\<exists>cfg'. generateDwnConfiguration g urls' s = (Inr cfg', s') \<and>
                   keySet cfg' = keySet cfg \<and>
                   map (signingKeys \<circ> serviceEndpoint) (services cfg') = [[''#dwn-sig'']] \<and>
                   map (encryptionKeys \<circ> serviceEndpoint) (services cfg') = [[''#dwn-enc'']]"
    using 1 2 by (simp add: generateDwnConfiguration_def cfg)
  show ?thesis
    by (rule exI [of _ k1], rule exI [of _ k2], rule exI [of _ t]) (intro conjI 1 2 r k sg en other)
qed

theorem generateDwnConfiguration_fixed_identifiers_witness:
  "\<exists>cfg. generateDwnConfiguration labelKeys [''https://b.example''] 0 = (Inr cfg, 2) \<and>
     (\<exists>sk ek s1.
        labelKeys \<lparr>keyAlgorithm = ''Ed25519'', keyId = ''#dwn-sig''\<rparr> 0 = (Inr sk, s1) \<and>
        labelKeys \<lparr>keyAlgorithm = ''Ed25519'', keyId = ''#dwn-enc''\<rparr> s1 = (Inr ek, 2) \<and>
        generateDwnConfiguration (recording labelKeys) [''https://b.example''] ([], 0) =
          (Inr cfg, ([\<lparr>keyAlgorithm = ''Ed25519'', keyId = ''#dwn-sig''\<rparr>,
                      \<lparr>keyAlgorithm = ''Ed25519'', keyId = ''#dwn-enc''\<rparr>], 2)) \<and>
        verificationMethodKeys (keySet cfg) =
          [\<lparr>keyPair = sk, relationships = [''authentication'']\<rparr>,
           \<lparr>keyPair = ek, relationships = [''keyAgreement'']\<rparr>] \<and>
        map (signingKeys \<circ> serviceEndpoint) (services cfg) = [[''#dwn-sig'']] \<and>
        map (encryptionKeys \<circ> serviceEndpoint) (services cfg) = [[''#dwn-enc'']] \<and>
        (\<exists>cfg'. generateDwnConfiguration labelKeys [] 0 = (Inr cfg', 2) \<and>
                keySet cfg' = keySet cfg \<and>
                map (signingKeys \<circ> serviceEndpoint) (services cfg') = [[''#dwn-sig'']] \<and>
                map (encryptionKeys \<circ> serviceEndpoint) (services cfg') = [[''#dwn-enc'']]))"
proof -
  obtain cfg where c: "generateDwnConfiguration labelKeys [''https://b.example''] 0 = (Inr cfg, 2)"
    by (simp add: generateDwnConfiguration_def labelKeys_def)
  show ?thesis
    by (rule exI [of _ cfg],
        rule conjI [OF c generateDwnConfiguration_fixed_identifiers [OF c, of "[]"]])
qed


section \<open>Properties of \<open>getRandomInt\<close>\<close>

lemma bitlen_powi:
  assumes "0 < p"
  shows "(2::rat) powi (bitlen p - 1) \<le> of_int p" and "of_int p < (2::rat) powi bitlen p"
proof -
  from assms have b1: "1 \<le> bitlen p" by (auto simp: bitlen_alt_def)
  from bitlen_bounds [OF assms]
  have "2 ^ nat (bitlen p - 1) \<le> p" and "p < 2 ^ nat (bitlen p)" by auto
  then have "(of_int (2 ^ nat (bitlen p - 1)) :: rat) \<le> of_int p"
    and "(of_int p :: rat) < of_int (2 ^ nat (bitlen p))"
    by (simp_all only: of_int_le_iff of_int_less_iff)
  then show "(2::rat) powi (bitlen p - 1) \<le> of_int p" and "of_int p < (2::rat) powi bitlen p"
    using b1 by (simp_all add: power_int_nonneg_exp)
qed

lemma binade_bounds:
  assumes "0 < x"
  shows "2 powi binade x \<le> x" and "x < 2 powi (binade x + 1)"
proof -
  obtain p q where pq: "quotient_of x = (p, q)" by (cases "quotient_of x")
  then have q: "0 < q" and x: "x = of_int p / of_int q"
    by (simp_all add: quotient_of_denom_pos quotient_of_div)
  from assms x q have p: "0 < p" by (simp add: zero_less_divide_iff)
  define d where "d = bitlen p - bitlen q"
  have qr: "(0::rat) < of_int q" using q by simp
  have "x < 2 powi bitlen p / 2 powi (bitlen q - 1)"
    unfolding x using p
    by (intro frac_less bitlen_powi [OF p] bitlen_powi [OF q]) simp_all
  then have up: "x < 2 powi (d + 1)"
    by (simp add: d_def power_int_diff [symmetric] algebra_simps)
  have "2 powi (bitlen p - 1) / 2 powi bitlen q < x"
    unfolding x using qr
    by (intro frac_less2 bitlen_powi [OF p] bitlen_powi [OF q]) simp_all
  then have lo: "2 powi (d - 1) < x"
    by (simp add: d_def power_int_diff [symmetric] algebra_simps)
  have b: "binade x = (if 2 powi d \<le> x then d else d - 1)"
    using assms pq by (simp add: binade_def d_def Let_def)
  show "2 powi binade x \<le> x" using lo b by (simp add: less_imp_le)
  show "x < 2 powi (binade x + 1)" using up b by (simp add: not_le)
qed

lemma roundTiesToEven_le: "q \<le> of_int M \<Longrightarrow> roundTiesToEven q \<le> M"
proof -
  assume a: "q \<le> of_int M"
  then have f: "\<lfloor>q\<rfloor> \<le> M" by (simp add: floor_le_iff)
  show ?thesis
  proof (cases "\<lfloor>q\<rfloor> = M")
    case True
    with a have "q = of_int M" by linarith
    then show ?thesis by (simp add: roundTiesToEven_def)
  next
    case False
    with f have "\<lfloor>q\<rfloor> + 1 \<le> M" by simp
    then show ?thesis by (simp add: roundTiesToEven_def Let_def)
  qed
qed

lemma roundTiesToEven_le_half: "q < of_int M - 1 / 2 \<Longrightarrow> roundTiesToEven q \<le> M - 1"
proof -
  assume a: "q < of_int M - 1 / 2"
  have "of_int \<lfloor>q\<rfloor> \<le> q" by simp
  with a have "(of_int \<lfloor>q\<rfloor> :: rat) < of_int M" by linarith
  then have f: "\<lfloor>q\<rfloor> \<le> M - 1" by simp
  show ?thesis
  proof (cases "\<lfloor>q\<rfloor> = M - 1")
    case True
    with a have "q - of_int \<lfloor>q\<rfloor> < 1 / 2" by simp
    then show ?thesis using True by (simp add: roundTiesToEven_def Let_def)
  next
    case False
    with f have "\<lfloor>q\<rfloor> + 1 \<le> M - 1" by simp
    then show ?thesis by (simp add: roundTiesToEven_def Let_def)
  qed
qed

lemma roundTiesToEven_nonneg: "0 \<le> q \<Longrightarrow> 0 \<le> roundTiesToEven q"
  by (simp add: roundTiesToEven_def Let_def)

lemma ulp_pos: "0 < ulp x"
  by (simp add: ulp_def)

lemma roundToDouble_nonneg: "0 \<le> x \<Longrightarrow> 0 \<le> roundToDouble x"
  by (simp add: roundToDouble_def roundTiesToEven_nonneg ulp_pos less_imp_le)

lemma powi_less_exp: "(2::rat) powi a < 2 powi b \<Longrightarrow> a < b"
proof (rule ccontr)
  assume l: "(2::rat) powi a < 2 powi b" and "\<not> a < b"
  then have "b \<le> a" by simp
  then have "(2::rat) powi b \<le> 2 powi a" by (intro power_int_increasing) simp_all
  with l show False by simp
qed

lemma roundTiesToEven_of_int: "roundTiesToEven (of_int M) = M"
  by (simp add: roundTiesToEven_def)

lemma isDouble_of_int:
  assumes "0 \<le> n" and n53: "n < 2 ^ 53"
  shows "isDouble (of_int n)"
proof (cases "n = 0")
  case True
  then show ?thesis by (simp add: isDouble_def roundToDouble_def)
next
  case False
  with assms have npos: "(0::rat) < of_int n" by simp
  define k where "k = binade (of_int n)"
  have "(2::rat) powi 0 \<le> of_int n" using npos by simp
  also have "(of_int n :: rat) < 2 powi (k + 1)" unfolding k_def by (rule binade_bounds(2) [OF npos])
  finally have "0 < k + 1" by (rule powi_less_exp)
  then have k0: "0 \<le> k" by simp
  have n53r: "(of_int n :: rat) < 2 powi 53" using n53
    by (metis of_int_less_iff of_int_numeral of_int_power power_int_numeral)
  have "(2::rat) powi k \<le> of_int n" unfolding k_def by (rule binade_bounds(1) [OF npos])
  also note n53r
  finally have "k < 53" by (rule powi_less_exp)
  then have k52: "k \<le> 52" by simp
  have u: "ulp (of_int n) = 1 / 2 ^ nat (52 - k)"
  proof -
    have "ulp (of_int n) = 2 powi (- (52 - k))" using k0 by (simp add: ulp_def k_def)
    also have "\<dots> = 1 / 2 powi (52 - k)" by (rule power_int_minus_divide)
    also have "2 powi (52 - k) = (2::rat) ^ nat (52 - k)"
      using k52 by (simp add: power_int_nonneg_exp)
    finally show ?thesis .
  qed
  have "of_int n / ulp (of_int n) = (of_int (n * 2 ^ nat (52 - k)) :: rat)" by (simp add: u)
  then have "roundTiesToEven (of_int n / ulp (of_int n)) = n * 2 ^ nat (52 - k)"
    by (simp only: roundTiesToEven_of_int)
  then have "roundToDouble (of_int n) = of_int n"
    using npos by (simp add: roundToDouble_def u)
  moreover have "\<bar>of_int n :: rat\<bar> < 2 ^ 1024"
  proof -
    have "(2::rat) powi 53 \<le> 2 powi 1024" by (intro power_int_increasing) simp_all
    with n53r have "(of_int n :: rat) < 2 powi 1024" by (rule less_le_trans)
    with npos show ?thesis by simp
  qed
  ultimately show ?thesis by (simp only: isDouble_def simp_thms)
qed

lemma scaled_product_less:
  assumes r0: "0 \<le> r" and r1: "r \<le> 1 - 1 / 2 ^ 53" and n1: "1 \<le> n" and nd: "isDouble (of_int n)"
    and x0: "r * of_int n \<noteq> 0"
  shows "roundToDouble (r * of_int n) < of_int n"
proof -
  define x where "x = r * of_int n"
  define e where "e = max (binade x) (- 1022)"
  define u where "u = (2::rat) powi (e - 52)"
  define kn where "kn = binade (of_int n)"
  define K where "K = roundTiesToEven (of_int n / ulp (of_int n))"
  have nr: "(1::rat) \<le> of_int n" using n1 by simp
  then have npos: "(0::rat) < of_int n" by simp
  have xpos: "0 < x" using r0 n1 x0 by (simp add: x_def less_le)
  have xle: "x \<le> of_int n - of_int n / 2 ^ 53"
  proof -
    have "x \<le> (1 - 1 / 2 ^ 53) * of_int n"
      unfolding x_def using r1 nr by (intro mult_right_mono) simp_all
    then show ?thesis by (simp add: algebra_simps)
  qed
  have "(0::rat) < of_int n / 2 ^ 53" using nr by simp
  with xle have xn: "x < of_int n" by linarith
  have upos: "0 < u" by (simp add: u_def)
  have "(2::rat) powi 0 \<le> of_int n" using nr by simp
  also have nk: "(of_int n :: rat) < 2 powi (kn + 1)"
    unfolding kn_def by (rule binade_bounds(2) [OF npos])
  finally have "0 < kn + 1" by (rule powi_less_exp)
  then have kn0: "0 \<le> kn" by simp
  have "(2::rat) powi binade x \<le> x" by (rule binade_bounds [OF xpos])
  also note xn
  also note nk
  finally have "binade x < kn + 1" by (rule powi_less_exp)
  then have ek: "e \<le> kn" using kn0 by (simp add: e_def)
  have un: "ulp (of_int n) = 2 powi (kn - 52)" using kn0 by (simp add: ulp_def kn_def)
  have nK: "(of_int n :: rat) = 2 powi (kn - 52) * of_int K"
    using nd npos by (simp add: isDouble_def roundToDouble_def K_def un)
  define N where "N = K * 2 ^ nat (kn - e)"
  have Nu: "of_int N = of_int n / u"
  proof -
    have "(2::rat) powi ((kn - e) + (e - 52)) = 2 powi (kn - e) * 2 powi (e - 52)"
      by (rule power_int_add) simp
    moreover have "(kn - e) + (e - 52) = kn - 52" by simp
    moreover have "2 powi (kn - e) = (2::rat) ^ nat (kn - e)"
      using ek by (simp add: power_int_nonneg_exp)
    ultimately have "(2::rat) powi (kn - 52) = 2 ^ nat (kn - e) * u" by (simp add: u_def)
    with nK have "of_int n = 2 ^ nat (kn - e) * u * of_int K" by simp
    then have "of_int n / u = 2 ^ nat (kn - e) * of_int K" using upos by simp
    then show ?thesis by (simp add: N_def)
  qed
  define c where "c = of_int n / (2::rat) powi (e + 1)"
  have cu: "of_int n / 2 ^ 53 / u = c"
  proof -
    have "(2::rat) powi (53 + (e - 52)) = 2 powi 53 * 2 powi (e - 52)"
      by (rule power_int_add) simp
    moreover have "53 + (e - 52) = e + 1" by simp
    ultimately have "(2::rat) powi (e + 1) = 2 ^ 53 * 2 powi (e - 52)" by simp
    then show ?thesis by (simp add: c_def u_def)
  qed
  have qle: "x / u \<le> of_int N - c"
  proof -
    have "x / u \<le> (of_int n - of_int n / 2 ^ 53) / u"
      by (rule divide_right_mono [OF xle less_imp_le [OF upos]])
    also have "\<dots> = of_int N - c" by (simp only: diff_divide_distrib Nu cu)
    finally show ?thesis .
  qed
  have r: "roundTiesToEven (x / u) \<le> N - 1"
  proof (cases "(2::rat) powi (e + 1) \<le> of_int n")
    case True
    then have "1 \<le> c" by (simp add: c_def)
    with qle have "x / u \<le> of_int (N - 1)" by simp
    then show ?thesis by (rule roundTiesToEven_le)
  next
    case False
    have "(2::rat) powi e < of_int n"
    proof (cases "- 1022 \<le> binade x")
      case True
      then have "e = binade x" by (simp add: e_def)
      then show ?thesis using binade_bounds(1) [OF xpos] xn by simp
    next
      case False
      then have "e = - 1022" by (simp add: e_def)
      moreover have "(2::rat) powi (- 1022) < 1" by simp
      ultimately show ?thesis using nr by simp
    qed
    moreover have "(2::rat) powi (e + 1) = 2 * 2 powi e"
      by (simp add: power_int_add)
    ultimately have "1 / 2 < c" by (simp add: c_def field_simps)
    with qle have "x / u < of_int N - 1 / 2" by simp
    then show ?thesis by (rule roundTiesToEven_le_half)
  qed
  have "roundToDouble x = u * of_int (roundTiesToEven (x / u))"
    using xpos by (simp add: roundToDouble_def ulp_def u_def e_def)
  also have "\<dots> \<le> u * of_int (N - 1)"
    using r upos by (simp only: mult_le_cancel_left_pos of_int_le_iff)
  also have "\<dots> = of_int n - u" using upos by (simp add: Nu algebra_simps)
  also have "\<dots> < of_int n" using upos by simp
  finally show ?thesis by (simp add: x_def)
qed

lemma isDouble_below_one:
  assumes d: "isDouble r" and r0: "0 \<le> r" and r1: "r < 1"
  shows "r \<le> 1 - 1 / 2 ^ 53"
proof (cases "r = 0")
  case True
  then show ?thesis by simp
next
  case False
  with r0 have rpos: "0 < r" by simp
  have "(2::rat) powi binade r \<le> r" by (rule binade_bounds [OF rpos])
  also have "r < 2 powi 0" using r1 by simp
  finally have neg: "binade r < 0" by (rule powi_less_exp)
  show ?thesis
  proof (cases "binade r = - 1")
    case True
    then have u: "ulp r = 1 / 2 ^ 53" by (simp add: ulp_def power_int_minus_divide)
    define K where "K = roundTiesToEven (r / ulp r)"
    from d False have rK: "r = of_int K / 2 ^ 53"
      by (simp add: isDouble_def roundToDouble_def K_def u)
    with r1 have "(of_int K :: rat) < of_int (2 ^ 53)" by (simp add: field_simps)
    then have "K < 2 ^ 53" by (simp only: of_int_less_iff)
    then have "K \<le> 2 ^ 53 - 1" by simp
    then have "(of_int K :: rat) \<le> of_int (2 ^ 53 - 1)" by (simp only: of_int_le_iff)
    then show ?thesis by (subst rK) (simp add: field_simps)
  next
    case False
    with neg have "binade r + 1 \<le> - 1" by simp
    then have "(2::rat) powi (binade r + 1) \<le> 2 powi (- 1)"
      by (intro power_int_increasing) simp_all
    with binade_bounds(2) [OF rpos] have "r < 1 / 2" by (simp add: power_int_minus_divide)
    then show ?thesis by simp
  qed
qed

lemma getRandomInt_range:
  assumes "isDouble r" and "0 \<le> r" and "r < 1" and "1 \<le> n" and "isDouble (of_int n)"
  shows "0 \<le> getRandomInt r 0 (of_int n) \<and> getRandomInt r 0 (of_int n) < n"
proof -
  have g: "getRandomInt r 0 (of_int n) = \<lfloor>roundToDouble (r * of_int n)\<rfloor>"
    by (simp add: getRandomInt_def)
  have le: "r \<le> 1 - 1 / 2 ^ 53" using assms(1-3) by (rule isDouble_below_one)
  have "0 \<le> r * of_int n" using assms by simp
  then have lo: "0 \<le> roundToDouble (r * of_int n)" by (rule roundToDouble_nonneg)
  have hi: "roundToDouble (r * of_int n) < of_int n"
  proof (cases "r * of_int n = 0")
    case True
    then show ?thesis using assms(4) by (simp add: roundToDouble_def)
  next
    case False
    with assms(2) le assms(4,5) show ?thesis by (rule scaled_product_less)
  qed
  from lo hi show ?thesis unfolding g by (simp add: floor_less_iff)
qed

text \<open>
  Claim C9. For every integer \<open>n \<ge> 1\<close> that is a JavaScript number (every integer below
  \<open>2 ^ 53\<close> is one) and every double \<open>r\<close> with \<open>0 \<le> r < 1\<close> returned by the random
  source, \<open>getRandomInt(0, n)\<close> is an integer in \<open>[0, n)\<close>, the rounding of the product
  included; so reading an array of length \<open>n\<close> at the drawn index yields one of its elements
  and never \<open>undefined\<close>.
\<close>

theorem getRandomInt_in_bounds:
  assumes "isDouble r" and "0 \<le> r" and "r < 1" and "1 \<le> n" and "isDouble (of_int n)"
  shows "0 \<le> getRandomInt r 0 (of_int n) \<and> getRandomInt r 0 (of_int n) < n \<and>
         (int (length dwnUrls) = n \<longrightarrow>
            arrayGet dwnUrls (getRandomInt r 0 (of_int n)) =
              Some (dwnUrls ! nat (getRandomInt r 0 (of_int n))))"
  using getRandomInt_range [OF assms] by (simp add: arrayGet_def)

theorem getRandomInt_in_bounds_witness:
  "isDouble (1 / 2) \<and> isDouble (of_int 3) \<and>
   0 \<le> getRandomInt (1 / 2) 0 (of_int 3) \<and> getRandomInt (1 / 2) 0 (of_int 3) < 3 \<and>
   arrayGet [''a'', ''b'', ''c''] (getRandomInt (1 / 2) 0 (of_int 3)) =
     Some ([''a'', ''b'', ''c''] ! nat (getRandomInt (1 / 2) 0 (of_int 3)))"
proof -
  have a: "isDouble (1 / 2)" by code_simp
  have b: "isDouble (of_int 3)" by code_simp
  from getRandomInt_in_bounds [OF a _ _ _ b, of "[''a'', ''b'', ''c'']"] a b
  show ?thesis by simp
qed


section \<open>Properties of the probing loop\<close>

lemma probeStep_attempts [simp]:
  "attempts (probeStep random health dwnUrls st) = attempts st + 1"
  by (simp add: probeStep_def Let_def)

lemma probeStep_probed [simp]:
  "probed (probeStep random health dwnUrls st) =
     probed st @ [(arrayGet dwnUrls (getRandomInt (random (attempts st)) 0 (of_nat (length dwnUrls))),
                   health (attempts st)
                     (arrayGet dwnUrls (getRandomInt (random (attempts st)) 0 (of_nat (length dwnUrls)))))]"
  by (simp add: probeStep_def Let_def)

lemma probeStep_endpoints:
  "techPreviewEndpoints (probeStep random health dwnUrls st) =
     (if succeeded (health (attempts st)
            (arrayGet dwnUrls (getRandomInt (random (attempts st)) 0 (of_nat (length dwnUrls)))))
      then setAdd (arrayGet dwnUrls (getRandomInt (random (attempts st)) 0 (of_nat (length dwnUrls))))
             (techPreviewEndpoints st)
      else techPreviewEndpoints st)"
  by (simp add: probeStep_def Let_def succeeded_def split: fetched.splits)

lemma setAdd_set [simp]: "set (setAdd x xs) = insert x (set xs)"
  by (auto simp: setAdd_def)

lemma setAdd_distinct: "distinct xs \<Longrightarrow> distinct (setAdd x xs)"
  by (simp add: setAdd_def)

lemma setAdd_length: "length (setAdd x xs) = (if x \<in> set xs then length xs else length xs + 1)"
  by (simp add: setAdd_def)

lemma probeLoop_continue:
  "attempts st < length dwnUrls \<and> length (techPreviewEndpoints st) < min (length dwnUrls) 2 \<Longrightarrow>
   probeLoop random health dwnUrls st =
     probeLoop random health dwnUrls (probeStep random health dwnUrls st)"
  by (subst probeLoop.simps) (rule if_P)

lemma probeLoop_stop:
  "\<not> (attempts st < length dwnUrls \<and> length (techPreviewEndpoints st) < min (length dwnUrls) 2) \<Longrightarrow>
   probeLoop random health dwnUrls st = st"
  by (subst probeLoop.simps) (rule if_not_P)

lemma probeLoop_invariant:
  assumes "P st"
    and "\<And>s. P s \<Longrightarrow> attempts s < length dwnUrls \<Longrightarrow>
           length (techPreviewEndpoints s) < min (length dwnUrls) 2 \<Longrightarrow>
           P (probeStep random health dwnUrls s)"
  shows "P (probeLoop random health dwnUrls st)"
  using assms
proof (induction random health dwnUrls st rule: probeLoop.induct)
  case (1 random health dwnUrls st)
  show ?case
  proof (cases "attempts st < length dwnUrls \<and>
                length (techPreviewEndpoints st) < min (length dwnUrls) 2")
    case True
    then have eq: "probeLoop random health dwnUrls st =
                   probeLoop random health dwnUrls (probeStep random health dwnUrls st)"
      by (rule probeLoop_continue)
    from True have "P (probeStep random health dwnUrls st)" by (intro 1(3) 1(2)) simp_all
    then have "P (probeLoop random health dwnUrls (probeStep random health dwnUrls st))"
      using True 1(3) by (intro 1(1)) simp_all
    then show ?thesis unfolding eq .
  next
    case False
    then have eq: "probeLoop random health dwnUrls st = st" by (rule probeLoop_stop)
    show ?thesis unfolding eq by (rule 1(2))
  qed
qed

lemma probeLoop_exit:
  "\<not> (attempts (probeLoop random health dwnUrls st) < length dwnUrls \<and>
      length (techPreviewEndpoints (probeLoop random health dwnUrls st)) < min (length dwnUrls) 2)"
proof (induction random health dwnUrls st rule: probeLoop.induct)
  case (1 random health dwnUrls st)
  show ?case
  proof (cases "attempts st < length dwnUrls \<and>
                length (techPreviewEndpoints st) < min (length dwnUrls) 2")
    case True
    then have eq: "probeLoop random health dwnUrls st =
                   probeLoop random health dwnUrls (probeStep random health dwnUrls st)"
      by (rule probeLoop_continue)
    show ?thesis unfolding eq by (rule 1 [OF True])
  next
    case False
    then have eq: "probeLoop random health dwnUrls st = st" by (rule probeLoop_stop)
    show ?thesis unfolding eq by (rule False)
  qed
qed

lemma probeLoop_attempts:
  assumes "attempts st \<le> length dwnUrls" and "length (probed st) = attempts st"
  shows "attempts (probeLoop random health dwnUrls st) \<le> length dwnUrls \<and>
         length (probed (probeLoop random health dwnUrls st)) =
           attempts (probeLoop random health dwnUrls st)"
  by (rule probeLoop_invariant [where P = "\<lambda>s. attempts s \<le> length dwnUrls \<and> length (probed s) = attempts s"])
     (use assms in auto)

lemma probeLoop_distinct:
  assumes "distinct (techPreviewEndpoints st)"
    and "length (techPreviewEndpoints st) \<le> min (length dwnUrls) 2"
  shows "distinct (techPreviewEndpoints (probeLoop random health dwnUrls st)) \<and>
         length (techPreviewEndpoints (probeLoop random health dwnUrls st)) \<le> min (length dwnUrls) 2"
  by (rule probeLoop_invariant [where P = "\<lambda>s. distinct (techPreviewEndpoints s) \<and>
        length (techPreviewEndpoints s) \<le> min (length dwnUrls) 2"])
     (use assms in \<open>auto simp: probeStep_endpoints setAdd_distinct setAdd_length\<close>)

lemma probeLoop_confirmed:
  assumes "\<forall>m \<in> set (techPreviewEndpoints st). \<exists>h. (m, h) \<in> set (probed st) \<and> succeeded h"
  shows "\<forall>m \<in> set (techPreviewEndpoints (probeLoop random health dwnUrls st)).
           \<exists>h. (m, h) \<in> set (probed (probeLoop random health dwnUrls st)) \<and> succeeded h"
  by (rule probeLoop_invariant [where P = "\<lambda>s. \<forall>m \<in> set (techPreviewEndpoints s).
        \<exists>h. (m, h) \<in> set (probed s) \<and> succeeded h"])
     (use assms in \<open>auto simp: probeStep_endpoints\<close>)

lemma drawn_in_range:
  assumes "validRandom random" and "dwnUrls \<noteq> []" and "length dwnUrls < 2 ^ 32"
  shows "\<exists>i < length dwnUrls.
           getRandomInt (random k) 0 (of_nat (length dwnUrls)) = int i \<and>
           arrayGet dwnUrls (getRandomInt (random k) 0 (of_nat (length dwnUrls))) = Some (dwnUrls ! i)"
proof -
  define n where "n = int (length dwnUrls)"
  have n1: "1 \<le> n" using assms(2) by (cases dwnUrls) (simp_all add: n_def)
  have "n < 2 ^ 32" using assms(3) unfolding n_def by (metis of_nat_less_iff of_nat_numeral of_nat_power)
  then have "n < 2 ^ 53" by simp
  with n1 have d: "isDouble (of_int n)" by (intro isDouble_of_int) simp_all
  from assms(1) have r: "isDouble (random k)" "0 \<le> random k" "random k < 1"
    by (simp_all add: validRandom_def)
  have eq: "(of_nat (length dwnUrls) :: rat) = of_int n" by (simp add: n_def)
  from getRandomInt_range [OF r n1 d]
  have g: "0 \<le> getRandomInt (random k) 0 (of_nat (length dwnUrls))"
    "getRandomInt (random k) 0 (of_nat (length dwnUrls)) < n"
    unfolding eq by simp_all
  define i where "i = nat (getRandomInt (random k) 0 (of_nat (length dwnUrls)))"
  have "i < length dwnUrls" using g by (simp add: i_def n_def)
  moreover have "getRandomInt (random k) 0 (of_nat (length dwnUrls)) = int i" using g by (simp add: i_def)
  moreover have "arrayGet dwnUrls (getRandomInt (random k) 0 (of_nat (length dwnUrls))) = Some (dwnUrls ! i)"
    using g by (simp add: arrayGet_def i_def n_def)
  ultimately show ?thesis by blast
qed

lemma probeLoop_subset:
  assumes "validRandom random" and "length dwnUrls < 2 ^ 32"
    and "set (techPreviewEndpoints st) \<subseteq> Some ` set dwnUrls"
  shows "set (techPreviewEndpoints (probeLoop random health dwnUrls st)) \<subseteq> Some ` set dwnUrls"
proof (rule probeLoop_invariant [where P = "\<lambda>s. set (techPreviewEndpoints s) \<subseteq> Some ` set dwnUrls"])
  show "set (techPreviewEndpoints st) \<subseteq> Some ` set dwnUrls" by (rule assms(3))
next
  fix s :: "'a selection"
  assume inv: "set (techPreviewEndpoints s) \<subseteq> Some ` set dwnUrls"
    and a: "attempts s < length dwnUrls"
  then have ne: "dwnUrls \<noteq> []" by auto
  from drawn_in_range [OF assms(1) ne assms(2), of "attempts s"]
  obtain i where "i < length dwnUrls"
    and "arrayGet dwnUrls (getRandomInt (random (attempts s)) 0 (of_nat (length dwnUrls))) = Some (dwnUrls ! i)"
    by blast
  then show "set (techPreviewEndpoints (probeStep random health dwnUrls s)) \<subseteq> Some ` set dwnUrls"
    using inv by (auto simp: probeStep_endpoints)
qed

lemma probeLoop_start_attempts:
  "attempts (probeLoop random health dwnUrls start) \<le> length dwnUrls \<and>
   length (probed (probeLoop random health dwnUrls start)) =
     attempts (probeLoop random health dwnUrls start)"
  by (rule probeLoop_attempts) simp_all

lemma probeLoop_start_distinct:
  "distinct (techPreviewEndpoints (probeLoop random health dwnUrls start)) \<and>
   length (techPreviewEndpoints (probeLoop random health dwnUrls start)) \<le> min (length dwnUrls) 2"
  by (rule probeLoop_distinct) simp_all

lemma probeLoop_start_confirmed:
  "\<forall>m \<in> set (techPreviewEndpoints (probeLoop random health dwnUrls start)).
     \<exists>h. (m, h) \<in> set (probed (probeLoop random health dwnUrls start)) \<and> succeeded h"
  by (rule probeLoop_confirmed) simp

lemma probeLoop_start_subset:
  assumes "validRandom random" and "length dwnUrls < 2 ^ 32"
  shows "set (techPreviewEndpoints (probeLoop random health dwnUrls start)) \<subseteq> Some ` set dwnUrls"
  using assms by (rule probeLoop_subset) simp

lemma probeLoop_all_fail:
  assumes "\<forall>k m. \<not> succeeded (health k m)"
  shows "techPreviewEndpoints (probeLoop random health dwnUrls start) = [] \<and>
         attempts (probeLoop random health dwnUrls start) = length dwnUrls"
proof -
  let ?F = "probeLoop random health dwnUrls start"
  have e: "techPreviewEndpoints ?F = []"
    by (rule probeLoop_invariant [where P = "\<lambda>s. techPreviewEndpoints s = []"])
       (use assms in \<open>simp_all add: probeStep_endpoints\<close>)
  have a: "attempts ?F \<le> length dwnUrls"
    using probeLoop_start_attempts [of random health dwnUrls] by simp
  from probeLoop_exit [of random health dwnUrls start] e a
  show ?thesis by (cases dwnUrls) auto
qed

lemma probeLoop_second:
  assumes "\<forall>k m. succeeded (health k m)"
    and "techPreviewEndpoints st = [x]" and "2 \<le> length dwnUrls"
  shows "if \<exists>k. attempts st \<le> k \<and> k < length dwnUrls \<and> drawn random dwnUrls k \<noteq> x
         then length (techPreviewEndpoints (probeLoop random health dwnUrls st)) = 2
         else techPreviewEndpoints (probeLoop random health dwnUrls st) = [x]"
  using assms
proof (induction random health dwnUrls st rule: probeLoop.induct)
  case (1 random health dwnUrls st)
  let ?step = "probeStep random health dwnUrls st"
  let ?d = "drawn random dwnUrls (attempts st)"
  show ?case
  proof (cases "attempts st < length dwnUrls")
    case False
    then have "probeLoop random health dwnUrls st = st" by (intro probeLoop_stop) simp
    with False 1(3) show ?thesis by auto
  next
    case True
    with 1(3,4) have c: "attempts st < length dwnUrls \<and>
        length (techPreviewEndpoints st) < min (length dwnUrls) 2" by simp
    then have eq: "probeLoop random health dwnUrls st = probeLoop random health dwnUrls ?step"
      by (rule probeLoop_continue)
    have ep: "techPreviewEndpoints ?step = setAdd ?d [x]"
      using 1(2,3) by (simp add: probeStep_endpoints)
    show ?thesis
    proof (cases "?d = x")
      case same: True
      then have e1: "techPreviewEndpoints ?step = [x]" using ep by (simp add: setAdd_def)
      have "(\<exists>k. attempts st \<le> k \<and> k < length dwnUrls \<and> drawn random dwnUrls k \<noteq> x) =
            (\<exists>k. attempts ?step \<le> k \<and> k < length dwnUrls \<and> drawn random dwnUrls k \<noteq> x)"
        using same by (auto simp: Suc_le_eq intro: le_neq_implies_less elim: less_imp_le)
      then show ?thesis unfolding eq using 1(1) [OF c 1(2) e1 1(4)] by (simp only:)
    next
      case other: False
      then have e2: "techPreviewEndpoints ?step = [x, ?d]" using ep by (simp add: setAdd_def)
      then have "probeLoop random health dwnUrls ?step = ?step" by (intro probeLoop_stop) simp
      then show ?thesis unfolding eq using e2 other True by auto
    qed
  qed
qed

lemma probeLoop_all_healthy:
  assumes "\<forall>k m. succeeded (health k m)" and "2 \<le> length dwnUrls"
  shows "if \<exists>k < length dwnUrls. drawn random dwnUrls k \<noteq> drawn random dwnUrls 0
         then length (techPreviewEndpoints (probeLoop random health dwnUrls start)) = 2
         else techPreviewEndpoints (probeLoop random health dwnUrls start) = [drawn random dwnUrls 0]"
proof -
  let ?step = "probeStep random health dwnUrls start"
  have eq: "probeLoop random health dwnUrls start = probeLoop random health dwnUrls ?step"
    using assms(2) by (intro probeLoop_continue) (cases dwnUrls, simp_all)
  have e: "techPreviewEndpoints ?step = [drawn random dwnUrls 0]"
    using assms(1) by (simp add: probeStep_endpoints setAdd_def)
  have pos: "attempts ?step \<le> k" if "drawn random dwnUrls k \<noteq> drawn random dwnUrls 0" for k
    using that by (cases k) simp_all
  have "(\<exists>k < length dwnUrls. drawn random dwnUrls k \<noteq> drawn random dwnUrls 0) =
        (\<exists>k. attempts ?step \<le> k \<and> k < length dwnUrls \<and> drawn random dwnUrls k \<noteq> drawn random dwnUrls 0)"
    using pos by blast
  then show ?thesis unfolding eq using probeLoop_second [OF assms(1) e assms(2), of random]
    by (simp only:)
qed

text \<open>
  Claim C5. The probing loop is a total function, and for every candidate list, every
  outcome of every probe and every sequence of draws it makes at most \<open>dwnUrls.length\<close>
  iterations, one probe in each. It stops only when the counter has reached the length
  or the set has reached its target, so a failed probe ends nothing: an iteration adds 1
  to the counter whatever the probe did, leaves the set as it was when the probe did not
  succeed, and leaves its size as it was when the drawn value is already a member; when
  every probe fails, all \<open>dwnUrls.length\<close> iterations are made.
\<close>

theorem probing_loop_bounded:
  "attempts (probeLoop random health dwnUrls start) \<le> length dwnUrls \<and>
   length (probed (probeLoop random health dwnUrls start)) =
     attempts (probeLoop random health dwnUrls start) \<and>
   (attempts (probeLoop random health dwnUrls start) = length dwnUrls \<or>
    length (techPreviewEndpoints (probeLoop random health dwnUrls start)) = min (length dwnUrls) 2) \<and>
   attempts (probeStep random health dwnUrls st) = attempts st + 1 \<and>
   (\<not> succeeded (health (attempts st) (drawn random dwnUrls (attempts st))) \<longrightarrow>
      techPreviewEndpoints (probeStep random health dwnUrls st) = techPreviewEndpoints st) \<and>
   (drawn random dwnUrls (attempts st) \<in> set (techPreviewEndpoints st) \<longrightarrow>
      length (techPreviewEndpoints (probeStep random health dwnUrls st)) =
        length (techPreviewEndpoints st)) \<and>
   ((\<forall>k m. \<not> succeeded (health k m)) \<longrightarrow>
      attempts (probeLoop random health dwnUrls start) = length dwnUrls)"
proof -
  let ?F = "probeLoop random health dwnUrls start"
  note a = probeLoop_start_attempts [of random health dwnUrls]
  note d = probeLoop_start_distinct [of random health dwnUrls]
  have "attempts ?F = length dwnUrls \<or> length (techPreviewEndpoints ?F) = min (length dwnUrls) 2"
    using probeLoop_exit [of random health dwnUrls start] a d by linarith
  moreover have "\<not> succeeded (health (attempts st) (drawn random dwnUrls (attempts st))) \<longrightarrow>
      techPreviewEndpoints (probeStep random health dwnUrls st) = techPreviewEndpoints st"
    by (simp add: probeStep_endpoints)
  moreover have "drawn random dwnUrls (attempts st) \<in> set (techPreviewEndpoints st) \<longrightarrow>
      length (techPreviewEndpoints (probeStep random health dwnUrls st)) =
        length (techPreviewEndpoints st)"
    by (simp add: probeStep_endpoints setAdd_length)
  moreover have "(\<forall>k m. \<not> succeeded (health k m)) \<longrightarrow> attempts ?F = length dwnUrls"
    using probeLoop_all_fail [of health random dwnUrls] by simp
  ultimately show ?thesis using a by (simp only: probeStep_attempts simp_thms)
qed

theorem probing_loop_bounded_witness:
  "\<not> succeeded (unreachable 1 (drawn (\<lambda>k. 0) [''a'', ''b'', ''c''] 1)) \<and>
   drawn (\<lambda>k. 0) [''a'', ''b'', ''c''] 1 \<in> set [Some ''a''] \<and>
   (\<forall>k (m :: string option). \<not> succeeded (unreachable k m)) \<and>
   attempts (probeLoop (\<lambda>k. 0) unreachable [''a'', ''b'', ''c''] start) = 3 \<and>
   length (probed (probeLoop (\<lambda>k. 0) unreachable [''a'', ''b'', ''c''] start)) = 3 \<and>
   techPreviewEndpoints (probeStep (\<lambda>k. 0) unreachable [''a'', ''b'', ''c'']
       \<lparr>attempts = 1, techPreviewEndpoints = [Some ''a''], probed = []\<rparr>) = [Some ''a''] \<and>
   attempts (probeStep (\<lambda>k. 0) unreachable [''a'', ''b'', ''c'']
       \<lparr>attempts = 1, techPreviewEndpoints = [Some ''a''], probed = []\<rparr>) = 2"
proof -
  have f: "\<forall>k (m :: string option). \<not> succeeded (unreachable k m)"
    by (simp add: unreachable_def succeeded_def)
  have g: "drawn (\<lambda>k. 0) [''a'', ''b'', ''c''] 1 \<in> set [Some ''a'']"
    by (simp add: getRandomInt_def roundToDouble_def arrayGet_def)
  from probing_loop_bounded [of "\<lambda>k. 0" unreachable "[''a'', ''b'', ''c'']"
      "\<lparr>attempts = 1, techPreviewEndpoints = [Some ''a''], probed = []\<rparr>"] f g
  show ?thesis by simp
qed


section \<open>Properties of \<open>getTechPreviewDwnEndpoints\<close>\<close>

lemma list_of_image: "set xs \<subseteq> f ` A \<Longrightarrow> \<exists>ys. xs = map f ys \<and> set ys \<subseteq> A"
proof (induction xs)
  case Nil
  then show ?case by simp
next
  case (Cons x xs)
  then obtain ys where ys: "xs = map f ys" "set ys \<subseteq> A" by auto
  from Cons.prems obtain y where "y \<in> A" "x = f y" by auto
  with ys have "x # xs = map f (y # ys) \<and> set (y # ys) \<subseteq> A" by simp
  then show ?case by (rule exI)
qed

lemma members_strings: "members (map JStr urls) = map (\<lambda>u. (None, JStr u)) urls"
proof -
  have "map (\<lambda>(i, v). memberAt i v) (enumerate n (map JStr urls)) = map (\<lambda>u. (None, JStr u)) urls" for n
    by (induction urls arbitrary: n) (simp_all add: memberAt_def)
  then show ?thesis by (simp add: members_def)
qed

lemma getTechPreviewDwnEndpoints_probing:
  assumes "fetchDiscovery w = Inr response" and "extractNodes response = Inr (Some dwnUrls)"
  shows "getTechPreviewDwnEndpoints w =
           \<lparr>warnings = [],
            probes = map (\<lambda>(m, h). (valueOf m, h))
                       (probed (probeLoop (mathRandom w) (\<lambda>k m. fetchHealth w k (valueOf m))
                                  (members dwnUrls) start)),
            result = Inr (map valueOf
                       (techPreviewEndpoints (probeLoop (mathRandom w) (\<lambda>k m. fetchHealth w k (valueOf m))
                                  (members dwnUrls) start)))\<rparr>"
  using assms by (simp add: getTechPreviewDwnEndpoints_def Let_def)

lemma valueOf_string [simp]: "valueOf (Some (None, JStr u)) = JStr u"
  by (simp add: valueOf_def)

lemma string_selection:
  assumes "fetchDiscovery w = Inr response"
    and "extractNodes response = Inr (Some (map JStr urls))"
    and "validRandom (mathRandom w)" and "length urls < 2 ^ 32"
  defines "F \<equiv> probeLoop (mathRandom w) (\<lambda>k m. fetchHealth w k (valueOf m))
                 (map (\<lambda>u. (None, JStr u)) urls) start"
  shows "\<exists>out. techPreviewEndpoints F = map (\<lambda>u. Some (None, JStr u)) out \<and>
               result (getTechPreviewDwnEndpoints w) = Inr (map JStr out) \<and>
               probes (getTechPreviewDwnEndpoints w) = map (\<lambda>(m, h). (valueOf m, h)) (probed F) \<and>
               distinct out \<and> set out \<subseteq> set urls"
proof -
  let ?f = "\<lambda>u. Some (None :: nat option, JStr u)"
  note run = getTechPreviewDwnEndpoints_probing [OF assms(1,2), unfolded members_strings, folded F_def]
  have "set (techPreviewEndpoints F) \<subseteq> Some ` set (map (\<lambda>u. (None, JStr u)) urls)"
    unfolding F_def using assms(3,4) by (intro probeLoop_start_subset) simp_all
  then have "set (techPreviewEndpoints F) \<subseteq> ?f ` set urls" by (simp add: image_image)
  then obtain out where out: "techPreviewEndpoints F = map ?f out" "set out \<subseteq> set urls"
    using list_of_image by blast
  have "distinct (techPreviewEndpoints F)"
    unfolding F_def using probeLoop_start_distinct by blast
  then have "distinct out" unfolding out(1) by (simp add: distinct_map)
  moreover have "result (getTechPreviewDwnEndpoints w) = Inr (map JStr out)"
    by (simp add: run out(1))
  moreover have "probes (getTechPreviewDwnEndpoints w) = map (\<lambda>(m, h). (valueOf m, h)) (probed F)"
    by (simp add: run)
  ultimately show ?thesis using out by blast
qed
lemma isDouble_half: "isDouble (1 / 2)"
  by code_simp

lemma spreadWorld_discovery:
  "fetchDiscovery spreadWorld = Inr \<lparr>status = 200, statusText = ''OK'',
       json = Inr (didDocumentWith (JObj [(''nodes'', JArr (map JStr fiveNodes))]))\<rparr>"
  by (simp add: fetchDiscovery_def spreadWorld_def served_def ok_def)

lemma fiveNodes_extracted:
  "extractNodes \<lparr>status = 200, statusText = ''OK'',
       json = Inr (didDocumentWith (JObj [(''nodes'', JArr (map JStr fiveNodes))]))\<rparr> =
     Inr (Some (map JStr fiveNodes))"
  by code_simp

lemma spreadWorld_random: "validRandom (mathRandom spreadWorld)"
  by (simp add: validRandom_def spreadWorld_def isDouble_half) (simp add: isDouble_def roundToDouble_def)

lemma spreadWorld_healthy: "\<forall>k dwnUrl. succeeded (fetchHealth spreadWorld k dwnUrl)"
  by (simp add: spreadWorld_def healthy_def succeeded_def ok_def)

lemma extractNodes_unusable:
  assumes "json response = Inr didDocument"
    and "getServices didDocument ''#dwn'' ''DecentralizedWebNode'' = JObj props # rest"
    and "map_of props ''serviceEndpoint'' = Some endpoint"
    and "(\<exists>s. endpoint = JStr s) \<or> (\<exists>xs. endpoint = JArr xs) \<or>
         (\<exists>b. endpoint = JBool b) \<or> (\<exists>q. endpoint = JNum q) \<or>
         (\<exists>ps. endpoint = JObj ps \<and> (\<forall>xs. map_of ps ''nodes'' \<noteq> Some (JArr xs)))"
  shows "extractNodes response = Inr None"
proof -
  from assms(3) have "(''serviceEndpoint'', endpoint) \<in> set props" by (rule map_of_SomeD)
  then have "''serviceEndpoint'' \<in> fst ` set props" by (rule image_eqI [rotated]) simp
  then have h: "hasProperty ''serviceEndpoint'' (JObj props) = Inr True"
    by (simp only: hasProperty_def jsvalue.case)
  have g: "getProperty (JObj props) ''serviceEndpoint'' = Inr endpoint"
    using assms(3) by (simp only: getProperty_def jsvalue.case option.case)
  have e: "isArray endpoint \<or> typeof endpoint = ''string'' \<or>
           (\<exists>v. getProperty endpoint ''nodes'' = Inr v \<and> (\<forall>xs. v \<noteq> JArr xs))"
    using assms(4) by (auto simp: isArray_def typeof_def getProperty_def split: option.splits)
  have s: "(case getServices didDocument ''#dwn'' ''DecentralizedWebNode'' of
              [] \<Rightarrow> JUndefined | service # _ \<Rightarrow> service) = JObj props"
    by (simp only: assms(2) list.case)
  have "extractNodes response =
          (if isArray endpoint then Inr None
           else if typeof endpoint = ''string'' then Inr None
           else (case getProperty endpoint ''nodes'' of
                   Inl e \<Rightarrow> Inl e
                 | Inr (JArr dwnUrls) \<Rightarrow> Inr (Some dwnUrls)
                 | Inr _ \<Rightarrow> Inr None))"
    by (simp only: extractNodes_def assms(1) sum.case Let_def s h g bool.case)
  with e show ?thesis by (auto split: jsvalue.splits)
qed

lemma unusable_endpoint_returns_empty:
  assumes "fetchDiscovery w = Inr response" and "extractNodes response = Inr None"
  shows "getTechPreviewDwnEndpoints w = \<lparr>warnings = [], probes = [], result = Inr []\<rparr>"
  using assms by (simp add: getTechPreviewDwnEndpoints_def)

text \<open>
  For any array under \<open>nodes\<close>, of strings or not: the run probes at most once per
  candidate, and what it returns are candidates whose probe succeeded, at most
  \<open>min n 2\<close> of them.
\<close>

lemma probe_budget:
  assumes "fetchDiscovery w = Inr response" and "extractNodes response = Inr (Some dwnUrls)"
  shows "length (probes (getTechPreviewDwnEndpoints w)) \<le> length dwnUrls"
proof -
  note run = getTechPreviewDwnEndpoints_probing [OF assms]
  have "length (members dwnUrls) = length dwnUrls" by (simp add: members_def)
  with probeLoop_start_attempts
    [of "mathRandom w" "\<lambda>k m. fetchHealth w k (valueOf m)" "members dwnUrls"]
  show ?thesis by (simp add: run)
qed

lemma valueOf_member: "m \<in> set (members dwnUrls) \<Longrightarrow> valueOf (Some m) \<in> set dwnUrls"
proof -
  assume "m \<in> set (members dwnUrls)"
  then obtain i v where iv: "(i, v) \<in> set (enumerate 0 dwnUrls)" and m: "m = memberAt i v"
    by (auto simp: members_def)
  from iv have "v \<in> set dwnUrls" by (auto simp: in_set_enumerate_eq)
  moreover have "valueOf (Some (memberAt i v)) = v"
    by (simp add: valueOf_def memberAt_def split: jsvalue.splits)
  ultimately show ?thesis using m by simp
qed

lemma selected_values:
  assumes "fetchDiscovery w = Inr response" and "extractNodes response = Inr (Some dwnUrls)"
    and "validRandom (mathRandom w)" and "length dwnUrls < 2 ^ 32"
  shows "\<exists>out. result (getTechPreviewDwnEndpoints w) = Inr out \<and>
               length out \<le> min (length dwnUrls) 2 \<and>
               set out \<subseteq> set dwnUrls \<and>
               (\<forall>v \<in> set out. \<exists>h. (v, h) \<in> set (probes (getTechPreviewDwnEndpoints w)) \<and> succeeded h)"
proof -
  define F where "F = probeLoop (mathRandom w) (\<lambda>k m. fetchHealth w k (valueOf m))
                        (members dwnUrls) start"
  note run = getTechPreviewDwnEndpoints_probing [OF assms(1,2), folded F_def]
  have lm: "length (members dwnUrls) = length dwnUrls" by (simp add: members_def)
  have sub: "set (techPreviewEndpoints F) \<subseteq> Some ` set (members dwnUrls)"
    unfolding F_def using assms(3,4) by (intro probeLoop_start_subset) (simp_all add: lm)
  have len: "length (techPreviewEndpoints F) \<le> min (length dwnUrls) 2"
    unfolding F_def using probeLoop_start_distinct [of "mathRandom w" _ "members dwnUrls"]
    by (simp add: lm)
  have conf: "\<forall>m \<in> set (techPreviewEndpoints F). \<exists>h. (m, h) \<in> set (probed F) \<and> succeeded h"
    unfolding F_def by (rule probeLoop_start_confirmed)
  have a: "set (map valueOf (techPreviewEndpoints F)) \<subseteq> set dwnUrls"
    using sub valueOf_member by auto
  have b: "\<exists>h. (v, h) \<in> set (map (\<lambda>(m, h). (valueOf m, h)) (probed F)) \<and> succeeded h"
    if "v \<in> set (map valueOf (techPreviewEndpoints F))" for v
  proof -
    from that obtain m where m: "m \<in> set (techPreviewEndpoints F)" "v = valueOf m" by auto
    with conf obtain h where h: "(m, h) \<in> set (probed F)" "succeeded h" by blast
    from h(1) have "(\<lambda>(m, h). (valueOf m, h)) (m, h) \<in> set (map (\<lambda>(m, h). (valueOf m, h)) (probed F))"
      by (simp only: set_map) (rule imageI)
    then have "(v, h) \<in> set (map (\<lambda>(m, h). (valueOf m, h)) (probed F))"
      by (simp only: m(2) prod.case)
    with h(2) show ?thesis by (intro exI conjI)
  qed
  show ?thesis
    by (rule exI [of _ "map valueOf (techPreviewEndpoints F)"])
       (use a b len in \<open>simp add: run\<close>)
qed

text \<open>
  Claim C7. When the fetch of the discovery document is rejected, or resolves to a
  response whose status is outside 200 to 299 (500, say), the function returns the empty
  array without raising; it issues no probe and logs one warning.
\<close>

theorem discovery_failure_returns_empty:
  assumes "fetchDocument w = Rejected message \<or>
           (fetchDocument w = Resolved response \<and> (status response < 200 \<or> 299 < status response))"
  shows "result (getTechPreviewDwnEndpoints w) = Inr [] \<and>
         probes (getTechPreviewDwnEndpoints w) = [] \<and>
         length (warnings (getTechPreviewDwnEndpoints w)) = 1"
proof -
  from assms obtain m where "fetchDiscovery w = Inl m"
    by (auto simp: fetchDiscovery_def ok_def)
  then show ?thesis by (simp add: getTechPreviewDwnEndpoints_def)
qed

theorem discovery_failure_returns_empty_witness:
  "fetchDocument outageWorld =
     Resolved \<lparr>status = 500, statusText = ''Internal Server Error'', json = Inl SyntaxError\<rparr> \<and>
   result (getTechPreviewDwnEndpoints outageWorld) = Inr [] \<and>
   probes (getTechPreviewDwnEndpoints outageWorld) = [] \<and>
   length (warnings (getTechPreviewDwnEndpoints outageWorld)) = 1"
proof -
  have f: "fetchDocument outageWorld =
     Resolved \<lparr>status = 500, statusText = ''Internal Server Error'', json = Inl SyntaxError\<rparr>"
    by (simp add: outageWorld_def)
  have "fetchDocument outageWorld = Rejected [] \<or>
        (fetchDocument outageWorld =
           Resolved \<lparr>status = 500, statusText = ''Internal Server Error'', json = Inl SyntaxError\<rparr> \<and>
         (status \<lparr>status = 500, statusText = ''Internal Server Error'', json = Inl SyntaxError\<rparr> < 200 \<or>
          299 < status \<lparr>status = 500, statusText = ''Internal Server Error'', json = Inl SyntaxError\<rparr>))"
    using f by simp
  from discovery_failure_returns_empty [OF this] f show ?thesis by (intro conjI) simp_all
qed

text \<open>
  Claim C6. For every list of candidate URLs in the discovery document, every outcome of
  the probes and every sequence of draws, the returned array has no duplicates, has at
  most \<open>min n 2\<close> members, all of them candidates, and each member was probed during the run
  with a successful outcome.
\<close>

theorem selected_endpoints_invariants:
  assumes "fetchDiscovery w = Inr response"
    and "extractNodes response = Inr (Some (map JStr urls))"
    and "validRandom (mathRandom w)" and "length urls < 2 ^ 32"
  shows "\<exists>out. result (getTechPreviewDwnEndpoints w) = Inr (map JStr out) \<and>
               distinct out \<and>
               length out \<le> min (length urls) 2 \<and>
               set out \<subseteq> set urls \<and>
               (\<forall>u \<in> set out. \<exists>h. (JStr u, h) \<in> set (probes (getTechPreviewDwnEndpoints w)) \<and> succeeded h)"
proof -
  define F where "F = probeLoop (mathRandom w) (\<lambda>k m. fetchHealth w k (valueOf m))
                        (map (\<lambda>u. (None, JStr u)) urls) start"
  from string_selection [OF assms, folded F_def]
  obtain out where out: "techPreviewEndpoints F = map (\<lambda>u. Some (None, JStr u)) out"
    and res: "result (getTechPreviewDwnEndpoints w) = Inr (map JStr out)"
    and pr: "probes (getTechPreviewDwnEndpoints w) = map (\<lambda>(m, h). (valueOf m, h)) (probed F)"
    and d: "distinct out" and sub: "set out \<subseteq> set urls"
    by blast
  have "length (techPreviewEndpoints F) \<le> min (length (map (\<lambda>u. (None :: nat option, JStr u)) urls)) 2"
    unfolding F_def using probeLoop_start_distinct by blast
  then have len: "length out \<le> min (length urls) 2" by (simp add: out)
  have conf: "\<forall>m \<in> set (techPreviewEndpoints F). \<exists>h. (m, h) \<in> set (probed F) \<and> succeeded h"
    unfolding F_def by (rule probeLoop_start_confirmed)
  have "\<exists>h. (JStr u, h) \<in> set (probes (getTechPreviewDwnEndpoints w)) \<and> succeeded h"
    if "u \<in> set out" for u
  proof -
    from that have "Some (None, JStr u) \<in> set (techPreviewEndpoints F)" by (simp add: out)
    with conf obtain h where h: "(Some (None, JStr u), h) \<in> set (probed F)" "succeeded h" by blast
    from h(1) have "(\<lambda>(m, h). (valueOf m, h)) (Some (None, JStr u), h) \<in> set (probes (getTechPreviewDwnEndpoints w))"
      unfolding pr by (simp only: set_map) (rule imageI)
    with h(2) show ?thesis by auto
  qed
  then have pr': "\<forall>u \<in> set out. \<exists>h. (JStr u, h) \<in> set (probes (getTechPreviewDwnEndpoints w)) \<and> succeeded h"
    by (rule ballI)
  show ?thesis
    by (rule exI [of _ out]) (intro conjI res d len sub pr')
qed

theorem selected_endpoints_invariants_witness:
  "fetchDiscovery spreadWorld = Inr \<lparr>status = 200, statusText = ''OK'',
       json = Inr (didDocumentWith (JObj [(''nodes'', JArr (map JStr fiveNodes))]))\<rparr> \<and>
   extractNodes \<lparr>status = 200, statusText = ''OK'',
       json = Inr (didDocumentWith (JObj [(''nodes'', JArr (map JStr fiveNodes))]))\<rparr> =
     Inr (Some (map JStr fiveNodes)) \<and>
   validRandom (mathRandom spreadWorld) \<and> length fiveNodes < 2 ^ 32 \<and>
   (\<exists>out. result (getTechPreviewDwnEndpoints spreadWorld) = Inr (map JStr out) \<and>
          distinct out \<and>
          length out \<le> min (length fiveNodes) 2 \<and>
          set out \<subseteq> set fiveNodes \<and>
          (\<forall>u \<in> set out. \<exists>h. (JStr u, h) \<in> set (probes (getTechPreviewDwnEndpoints spreadWorld)) \<and>
                               succeeded h))"
proof -
  have l: "length fiveNodes < 2 ^ 32" by (simp add: fiveNodes_def)
  show ?thesis
    by (intro conjI spreadWorld_discovery fiveNodes_extracted spreadWorld_random l
          selected_endpoints_invariants [OF spreadWorld_discovery fiveNodes_extracted spreadWorld_random l])
qed

text \<open>
  Claim C3, as the code has it. With five distinct candidates and every probe successful,
  the function makes at most five probes and returns one or two of the candidates. It
  returns two exactly when some draw among the five differs from the first draw: the
  draws are independent, and an index drawn again is probed again and adds nothing.
\<close>

theorem all_healthy_five_candidates:
  assumes "fetchDiscovery w = Inr response"
    and "extractNodes response = Inr (Some (map JStr urls))"
    and "distinct urls" and "length urls = 5"
    and "validRandom (mathRandom w)"
    and "\<forall>k dwnUrl. succeeded (fetchHealth w k dwnUrl)"
  shows "\<exists>out. result (getTechPreviewDwnEndpoints w) = Inr (map JStr out) \<and>
               distinct out \<and> set out \<subseteq> set urls \<and>
               (length out = 1 \<or> length out = 2) \<and>
               (length out = 2) =
                 (\<exists>k < 5. getRandomInt (mathRandom w k) 0 5 \<noteq> getRandomInt (mathRandom w 0) 0 5) \<and>
               length (probes (getTechPreviewDwnEndpoints w)) \<le> 5"
proof -
  define ms where "ms = map (\<lambda>u. (None :: nat option, JStr u)) urls"
  define F where "F = probeLoop (mathRandom w) (\<lambda>k m. fetchHealth w k (valueOf m)) ms start"
  have l32: "length urls < 2 ^ 32" using assms(4) by simp
  from string_selection [OF assms(1,2,5) l32, folded ms_def, folded F_def]
  obtain out where out: "techPreviewEndpoints F = map (\<lambda>u. Some (None, JStr u)) out"
    and res: "result (getTechPreviewDwnEndpoints w) = Inr (map JStr out)"
    and pr: "probes (getTechPreviewDwnEndpoints w) = map (\<lambda>(m, h). (valueOf m, h)) (probed F)"
    and d: "distinct out" and sub: "set out \<subseteq> set urls"
    by blast
  have lms: "length ms = 5" and dms: "distinct ms" and ne: "ms \<noteq> []" and lms32: "length ms < 2 ^ 32"
    using assms(3,4) by (auto simp: ms_def distinct_map inj_on_def)
  have healthy: "\<forall>k m. succeeded (fetchHealth w k (valueOf m))" using assms(6) by simp
  have two: "2 \<le> length ms" by (simp add: lms)
  have idx: "(arrayGet ms (getRandomInt (mathRandom w k) 0 5) =
              arrayGet ms (getRandomInt (mathRandom w 0) 0 5)) =
             (getRandomInt (mathRandom w k) 0 5 = getRandomInt (mathRandom w 0) 0 5)" for k
  proof -
    from drawn_in_range [OF assms(5) ne lms32, of k] obtain i where
      i: "i < length ms" "getRandomInt (mathRandom w k) 0 (of_nat (length ms)) = int i"
         "drawn (mathRandom w) ms k = Some (ms ! i)" by blast
    from drawn_in_range [OF assms(5) ne lms32, of 0] obtain j where
      j: "j < length ms" "getRandomInt (mathRandom w 0) 0 (of_nat (length ms)) = int j"
         "drawn (mathRandom w) ms 0 = Some (ms ! j)" by blast
    have "(ms ! i = ms ! j) = (i = j)" using dms i(1) j(1) by (simp add: nth_eq_iff_index_eq)
    then show ?thesis using i(2,3) j(2,3) by (simp add: lms)
  qed
  define E where "E \<longleftrightarrow>
    (\<exists>k < 5. getRandomInt (mathRandom w k) 0 5 \<noteq> getRandomInt (mathRandom w 0) 0 5)"
  note char = probeLoop_all_healthy
    [OF healthy two, of "mathRandom w", unfolded lms of_nat_numeral idx, folded F_def, folded E_def]
  have len: "length out = length (techPreviewEndpoints F)" by (simp add: out)
  have "(length out = 1 \<or> length out = 2) \<and> (length out = 2) = E"
  proof (cases E)
    case True
    with char have "length (techPreviewEndpoints F) = 2" by (simp only: if_True)
    with True len show ?thesis by simp
  next
    case False
    with char have "techPreviewEndpoints F = [arrayGet ms (getRandomInt (mathRandom w 0) 0 5)]"
      by (simp only: if_False)
    with False len show ?thesis by simp
  qed
  note sz = this [unfolded E_def]
  have "length (probed F) = attempts F \<and> attempts F \<le> length ms"
    unfolding F_def using probeLoop_start_attempts by blast
  then have pb: "length (probes (getTechPreviewDwnEndpoints w)) \<le> 5" by (simp add: pr lms)
  show ?thesis
    by (rule exI [of _ out]) (intro conjI res d sub sz [THEN conjunct1] sz [THEN conjunct2] pb)
qed

theorem all_healthy_five_candidates_witness:
  "distinct fiveNodes \<and> length fiveNodes = 5 \<and>
   validRandom (mathRandom spreadWorld) \<and>
   (\<forall>k dwnUrl. succeeded (fetchHealth spreadWorld k dwnUrl)) \<and>
   (\<exists>out. result (getTechPreviewDwnEndpoints spreadWorld) = Inr (map JStr out) \<and>
          distinct out \<and> set out \<subseteq> set fiveNodes \<and>
          (length out = 1 \<or> length out = 2) \<and>
          (length out = 2) =
            (\<exists>k < 5. getRandomInt (mathRandom spreadWorld k) 0 5 \<noteq>
                      getRandomInt (mathRandom spreadWorld 0) 0 5) \<and>
          length (probes (getTechPreviewDwnEndpoints spreadWorld)) \<le> 5)"
proof -
  have d: "distinct fiveNodes" by (simp add: fiveNodes_def)
  have l: "length fiveNodes = 5" by (simp add: fiveNodes_def)
  show ?thesis
    by (intro conjI d l spreadWorld_random spreadWorld_healthy
          all_healthy_five_candidates [OF spreadWorld_discovery fiveNodes_extracted d l
            spreadWorld_random spreadWorld_healthy])
qed

lemma stuckWorld_healthy: "\<forall>k dwnUrl. succeeded (fetchHealth stuckWorld k dwnUrl)"
  by (simp add: stuckWorld_def healthy_def succeeded_def ok_def)

lemma stuckWorld_random: "validRandom (mathRandom stuckWorld)"
  by (simp add: validRandom_def stuckWorld_def isDouble_def roundToDouble_def)

text \<open>
  Claim C3, as stated, fails: when every call of \<open>Math.random()\<close> returns 0, all five
  iterations probe the first of five distinct candidates, every one of the five probes
  succeeds, and the result has one member, not two.
\<close>

theorem all_healthy_five_candidates_counterexample:
  "fetchDiscovery stuckWorld = Inr \<lparr>status = 200, statusText = ''OK'',
       json = Inr (didDocumentWith (JObj [(''nodes'', JArr (map JStr fiveNodes))]))\<rparr> \<and>
   extractNodes \<lparr>status = 200, statusText = ''OK'',
       json = Inr (didDocumentWith (JObj [(''nodes'', JArr (map JStr fiveNodes))]))\<rparr> =
     Inr (Some (map JStr fiveNodes)) \<and>
   distinct fiveNodes \<and> length fiveNodes = 5 \<and>
   map (succeeded \<circ> snd) (probes (getTechPreviewDwnEndpoints stuckWorld)) =
     [True, True, True, True, True] \<and>
   result (getTechPreviewDwnEndpoints stuckWorld) = Inr [JStr ''https://dwn1.example'']"
proof -
  have "fetchDiscovery stuckWorld = Inr \<lparr>status = 200, statusText = ''OK'',
       json = Inr (didDocumentWith (JObj [(''nodes'', JArr (map JStr fiveNodes))]))\<rparr>"
    by (simp add: fetchDiscovery_def stuckWorld_def served_def ok_def)
  moreover have "extractNodes \<lparr>status = 200, statusText = ''OK'',
       json = Inr (didDocumentWith (JObj [(''nodes'', JArr (map JStr fiveNodes))]))\<rparr> =
     Inr (Some (map JStr fiveNodes))"
    by code_simp
  moreover have "distinct fiveNodes" by (simp add: fiveNodes_def)
  moreover have "length fiveNodes = 5" by (simp add: fiveNodes_def)
  moreover have "map (succeeded \<circ> snd) (probes (getTechPreviewDwnEndpoints stuckWorld)) =
     [True, True, True, True, True]"
    by code_simp
  moreover have "result (getTechPreviewDwnEndpoints stuckWorld) = Inr [JStr ''https://dwn1.example'']"
    by code_simp
  ultimately show ?thesis by (intro conjI)
qed

text \<open>
  Claim C2 does not hold of the code. The \<open>try\<close> block covers only the fetch and the status
  check. A response that is \<open>ok\<close> but whose body is not JSON makes \<open>response.json()\<close> reject,
  and a document without a matching service makes \<open>'serviceEndpoint' in dwnService\<close> throw
  on \<open>undefined\<close>; both exceptions reach the caller.
\<close>

theorem errors_escape_discovery:
  "result (getTechPreviewDwnEndpoints garbledWorld) = Inl SyntaxError \<and>
   result (getTechPreviewDwnEndpoints noServiceWorld) = Inl TypeError"
  by code_simp

text \<open>
  Claim C8 does not hold of the code for the endpoint \<open>null\<close>: it is not an array, its
  \<open>typeof\<close> is \<open>object\<close>, and reading \<open>nodes\<close> of it throws a \<open>TypeError\<close> that reaches the caller.
  For a string, an array, a boolean, a number, and an object without an array under
  \<open>nodes\<close>, the lemmas \<open>extractNodes_unusable\<close> and \<open>unusable_endpoint_returns_empty\<close> above give
  the empty result without a probe.
\<close>

theorem null_endpoint_throws:
  "result (getTechPreviewDwnEndpoints nullEndpointWorld) = Inl TypeError"
  by code_simp

lemma string_endpoint_empty:
  "getTechPreviewDwnEndpoints stringEndpointWorld = \<lparr>warnings = [], probes = [], result = Inr []\<rparr>"
  by code_simp

end
